theory Spec2Isabelle
  imports Main "HOL-Library.Char_ord" "HOL-Library.List_Lexorder" "HOL-Library.Multiset"
begin

section \<open>Catalog binding validator: the data of a run\<close>

text \<open>
  The embedding follows \<^verbatim>\<open>scripts/validate_catalog_binding.py\<close>. Text is a
  \<^typ>\<open>string\<close>; one \<^typ>\<open>char\<close> stands for one code point of the decoded text, so
  the model covers documents whose code points lie below 256. A path is its list of
  components. With the two library theories on lists and characters, \<open>\<le>\<close> on strings
  is the lexicographic order by character code, which is how Python compares \<^verbatim>\<open>str\<close>.
\<close>

type_synonym path = "string list"

text \<open>A reference is the pair \<^verbatim>\<open>(source_file, pid)\<close> the collectors append.\<close>

type_synonym reference = "path \<times> string"

text \<open>
  What \<^verbatim>\<open>json.loads\<close> returns: \<^verbatim>\<open>None\<close>, a bool, an int, a str, a list or a
  dict (its items in insertion order). Numbers with a fraction or an exponent, which
  become Python floats, are not part of the model.
\<close>

datatype json =
    JNull
  | JBool bool
  | JInt int
  | JStr string
  | JArr "json list"
  | JObj "(string \<times> json) list"

datatype py_error =
    AttributeError | TypeError | KeyError | JSONDecodeError | UnicodeDecodeError | OSError

text \<open>
  Python's \<^verbatim>\<open>==\<close> on the values a set can hold: \<^verbatim>\<open>True == 1\<close> and
  \<^verbatim>\<open>False == 0\<close>, a str equals only the same str.
\<close>

fun num_of :: "json \<Rightarrow> int option" where
  "num_of (JInt n) = Some n"
| "num_of (JBool b) = Some (if b then 1 else 0)"
| "num_of _ = None"

definition py_eq :: "json \<Rightarrow> json \<Rightarrow> bool" where
  "py_eq a b = (case (num_of a, num_of b) of
                  (Some x, Some y) \<Rightarrow> x = y
                | (None, None) \<Rightarrow> a = b
                | _ \<Rightarrow> False)"

text \<open>
  A Python set is kept as the list of its members, without duplicates up to \<open>py_eq\<close>.
  The program reads the set only through \<^verbatim>\<open>in\<close>, \<^verbatim>\<open>len\<close> and \<^verbatim>\<open>sorted\<close>.
\<close>

definition py_in :: "json \<Rightarrow> json list \<Rightarrow> bool" where
  "py_in x ids = list_ex (py_eq x) ids"

section \<open>Validation (lines 155--159 of main)\<close>

text \<open>
  \<^verbatim>\<open>
  errors = []
  for source_file, pid in used_ids:
      if pid not in valid_ids:
          errors.append((source_file, pid))
  \<close>
\<close>

fun validate_loop :: "json list \<Rightarrow> reference list \<Rightarrow> reference list \<Rightarrow> reference list" where
  "validate_loop valid_ids [] errors = errors"
| "validate_loop valid_ids ((source_file, pid) # used_ids) errors =
     validate_loop valid_ids used_ids
       (if \<not> py_in (JStr pid) valid_ids then errors @ [(source_file, pid)] else errors)"

definition validate :: "json list \<Rightarrow> reference list \<Rightarrow> reference list" where
  "validate valid_ids used_ids = validate_loop valid_ids used_ids []"

section \<open>Text operations of the Python library\<close>

text \<open>
  \<^verbatim>\<open>str.isspace\<close> and the class \<^verbatim>\<open>\s\<close> of \<^verbatim>\<open>re\<close> agree on one set of characters;
  below 256 these are the code points 9--13, 28--32, 133 and 160.
\<close>

definition is_space :: "char \<Rightarrow> bool" where
  "is_space c = ((of_char c :: nat) \<in> set [9, 10, 11, 12, 13, 28, 29, 30, 31, 32, 133, 160])"

text \<open>\<^verbatim>\<open>s.strip()\<close> and \<^verbatim>\<open>s.strip(chars)\<close>: both ends are trimmed.\<close>

definition strip_ws :: "string \<Rightarrow> string" where
  "strip_ws s = rev (dropWhile is_space (rev (dropWhile is_space s)))"

definition strip_chars :: "string \<Rightarrow> string \<Rightarrow> string" where
  "strip_chars cs s =
     rev (dropWhile (\<lambda>c. c \<in> set cs) (rev (dropWhile (\<lambda>c. c \<in> set cs) s)))"

text \<open>\<^verbatim>\<open>s.split(sep)\<close> for a separator of one character: never an empty list.\<close>

fun split_on :: "char \<Rightarrow> string \<Rightarrow> string list" where
  "split_on sep [] = [[]]"
| "split_on sep (c # cs) =
     (if c = sep then [] # split_on sep cs
      else (case split_on sep cs of
              [] \<Rightarrow> [[c]]
            | w # ws \<Rightarrow> (c # w) # ws))"

text \<open>\<^verbatim>\<open>sep.join(parts)\<close>.\<close>

fun join_with :: "string \<Rightarrow> string list \<Rightarrow> string" where
  "join_with sep [] = []"
| "join_with sep [x] = x"
| "join_with sep (x # y # ys) = x @ sep @ join_with sep (y # ys)"

text \<open>The decimal text of a number, as an f-string prints \<^verbatim>\<open>len(...)\<close>.\<close>

definition digit_char :: "nat \<Rightarrow> char" where
  "digit_char d = char_of (48 + d)"

fun show_nat :: "nat \<Rightarrow> string" where
  "show_nat n = (if n < 10 then [digit_char n] else show_nat (n div 10) @ [digit_char (n mod 10)])"

declare show_nat.simps [simp del]

definition show_int :: "int \<Rightarrow> string" where
  "show_int n = (if n < 0 then ''-'' @ show_nat (nat (- n)) else show_nat (nat n))"

text \<open>\<^verbatim>\<open>s.endswith(suf)\<close>, the test a glob pattern \<^verbatim>\<open>*suf\<close> makes on a file name.\<close>

definition ends_with :: "string \<Rightarrow> string \<Rightarrow> bool" where
  "ends_with suf s = (length suf \<le> length s \<and> drop (length s - length suf) s = suf)"

text \<open>\<^verbatim>\<open>s.rfind(c)\<close>: the last index of \<open>c\<close>, or \<open>-1\<close>.\<close>

definition rfind :: "char \<Rightarrow> string \<Rightarrow> int" where
  "rfind c s =
     (if c \<in> set s then int (length s) - 1 - int (length (takeWhile (\<lambda>x. x \<noteq> c) (rev s)))
      else - 1)"

section \<open>Paths\<close>

text \<open>
  \<^verbatim>\<open>PurePath.name\<close>, \<^verbatim>\<open>PurePath.stem\<close> (the name up to its last dot, when that
  dot is neither first nor last), \<^verbatim>\<open>is_relative_to\<close>, \<^verbatim>\<open>relative_to\<close> and the text
  of a relative POSIX path.
\<close>

definition path_name :: "path \<Rightarrow> string" where
  "path_name p = (if p = [] then [] else last p)"

definition stem :: "string \<Rightarrow> string" where
  "stem name =
     (let i = rfind CHR ''.'' name
      in if 0 < i \<and> i < int (length name) - 1 then take (nat i) name else name)"

definition is_relative_to :: "path \<Rightarrow> path \<Rightarrow> bool" where
  "is_relative_to p root = (take (length root) p = root)"

definition relative_to :: "path \<Rightarrow> path \<Rightarrow> path" where
  "relative_to p root = drop (length root) p"

definition rel_path_str :: "path \<Rightarrow> string" where
  "rel_path_str p = (if p = [] then ''.'' else join_with ''/'' p)"

definition abs_path_str :: "path \<Rightarrow> string" where
  "abs_path_str p = ''/'' @ join_with ''/'' p"

section \<open>The file tree of a run\<close>

text \<open>
  \<^verbatim>\<open>read_text(encoding="utf-8")\<close> either raises or returns the text. A tree lists what
  lies below a directory, each entry with its path relative to that directory, in the
  order in which \<^verbatim>\<open>rglob\<close> walks them; a directory that does not exist has no entry.
  \<^verbatim>\<open>rglob(pattern)\<close> yields the entries whose name the pattern accepts.
\<close>

datatype read_result = Unreadable py_error | Content string

type_synonym tree = "(path \<times> read_result) list"

definition rglob :: "(string \<Rightarrow> bool) \<Rightarrow> path \<Rightarrow> tree \<Rightarrow> (path \<times> read_result) list" where
  "rglob accepts dir t =
     map (\<lambda>(rel, r). (dir @ rel, r)) (filter (\<lambda>(rel, r). rel \<noteq> [] \<and> accepts (path_name rel)) t)"

text \<open>
  The index document: absent, unreadable (\<^verbatim>\<open>read_text\<close> raises), not JSON
  (\<^verbatim>\<open>json.loads\<close> raises \<^verbatim>\<open>JSONDecodeError\<close>), or the parsed value.
\<close>

datatype index_file = NoIndex | ReadFails py_error | NotJson | Json json

record snapshot =
  index_json :: index_file
  patterns_tree :: tree
  manifests_tree :: tree
  specs_tree :: tree

text \<open>What goes to the error stream: the two warnings, and the traceback of an uncaught exception.\<close>

datatype diag = WarnParse path | WarnRead path | Traceback py_error

section \<open>The regular expressions of the program\<close>

text \<open>
  The six patterns of the program use literals, the classes \<^verbatim>\<open>\s\<close>, \<^verbatim>\<open>[...]\<close> and
  \<^verbatim>\<open>[^...]\<close> under \<^verbatim>\<open>*\<close>, \<^verbatim>\<open>+\<close> and \<^verbatim>\<open>?\<close>, the anchors \<^verbatim>\<open>^\<close> and \<^verbatim>\<open>$\<close>
  (always with \<^verbatim>\<open>re.MULTILINE\<close>), one capturing group that is read, and one
  alternation of literals. A pattern is the list of its items; \<open>Open\<close> and \<open>Close\<close> are
  the parentheses of group 1.
\<close>

datatype cset = Ws | In "(char \<times> char) list" | NotIn "(char \<times> char) list"

datatype atom =
    Lit string | Star cset | Plus cset | Opt cset | Bol | Eol | Open | Close | Alt "string list"

text \<open>
  \<^verbatim>\<open>re.IGNORECASE\<close> compares characters through their lower case. The patterns hold
  ASCII characters only, and below 256 no other character has an ASCII letter as its
  lower or upper case, so folding \<open>A\<close>--\<open>Z\<close> is enough.
\<close>

definition lower :: "char \<Rightarrow> char" where
  "lower c = (if CHR ''A'' \<le> c \<and> c \<le> CHR ''Z'' then char_of (of_char c + (32 :: nat)) else c)"

definition fold_case :: "bool \<Rightarrow> char \<Rightarrow> char" where
  "fold_case ic c = (if ic then lower c else c)"

fun in_ranges :: "(char \<times> char) list \<Rightarrow> char \<Rightarrow> bool" where
  "in_ranges [] c = False"
| "in_ranges ((lo, hi) # rs) c = (lo \<le> c \<and> c \<le> hi \<or> in_ranges rs c)"

fun cmatch :: "bool \<Rightarrow> cset \<Rightarrow> char \<Rightarrow> bool" where
  "cmatch ic Ws c = is_space c"
| "cmatch ic (In rs) c = in_ranges rs (fold_case ic c)"
| "cmatch ic (NotIn rs) c = (\<not> in_ranges rs (fold_case ic c))"

text \<open>How many characters from position \<open>i\<close> on lie in a class; whether a literal stands at \<open>i\<close>.\<close>

definition run_len :: "bool \<Rightarrow> cset \<Rightarrow> string \<Rightarrow> nat \<Rightarrow> nat" where
  "run_len ic cs txt i = length (takeWhile (cmatch ic cs) (drop i txt))"

definition lit_at :: "bool \<Rightarrow> string \<Rightarrow> string \<Rightarrow> nat \<Rightarrow> bool" where
  "lit_at ic w txt i = (map (fold_case ic) (take (length w) (drop i txt)) = map (fold_case ic) w)"

text \<open>
  Backtracking. A greedy repetition takes the longest run first and gives characters
  back one at a time, down to its least count, until the rest of the pattern matches;
  an alternation tries its branches from left to right.
\<close>

fun rep_try :: "(nat \<Rightarrow> 'a option) \<Rightarrow> nat \<Rightarrow> nat \<Rightarrow> 'a option" where
  "rep_try k lo 0 = (if lo = 0 then k 0 else None)"
| "rep_try k lo (Suc n) =
     (if Suc n < lo then None
      else (case k (Suc n) of Some r \<Rightarrow> Some r | None \<Rightarrow> rep_try k lo n))"

fun alt_try :: "(nat \<Rightarrow> 'a option) \<Rightarrow> (string \<Rightarrow> bool) \<Rightarrow> string list \<Rightarrow> 'a option" where
  "alt_try k here [] = None"
| "alt_try k here (w # ws) =
     (case (if here w then k (length w) else None) of
        Some r \<Rightarrow> Some r
      | None \<Rightarrow> alt_try k here ws)"

text \<open>
  \<open>rx_match ic txt p i g\<close> matches pattern \<open>p\<close> at position \<open>i\<close> of \<open>txt\<close>, with the span
  \<open>g\<close> of group 1 so far; the result is the end of the match and the span of the group.
\<close>

fun rx_match :: "bool \<Rightarrow> string \<Rightarrow> atom list \<Rightarrow> nat \<Rightarrow> nat \<times> nat \<Rightarrow> (nat \<times> nat \<times> nat) option" where
  "rx_match ic txt [] i g = Some (i, g)"
| "rx_match ic txt (Lit w # p) i g =
     (if lit_at ic w txt i then rx_match ic txt p (i + length w) g else None)"
| "rx_match ic txt (Star cs # p) i g =
     rep_try (\<lambda>n. rx_match ic txt p (i + n) g) 0 (run_len ic cs txt i)"
| "rx_match ic txt (Plus cs # p) i g =
     rep_try (\<lambda>n. rx_match ic txt p (i + n) g) 1 (run_len ic cs txt i)"
| "rx_match ic txt (Opt cs # p) i g =
     rep_try (\<lambda>n. rx_match ic txt p (i + n) g) 0 (min 1 (run_len ic cs txt i))"
| "rx_match ic txt (Bol # p) i g =
     (if i = 0 \<or> txt ! (i - 1) = CHR 0x0A then rx_match ic txt p i g else None)"
| "rx_match ic txt (Eol # p) i g =
     (if i = length txt \<or> txt ! i = CHR 0x0A then rx_match ic txt p i g else None)"
| "rx_match ic txt (Open # p) i g = rx_match ic txt p i (i, snd g)"
| "rx_match ic txt (Close # p) i g = rx_match ic txt p i (fst g, i)"
| "rx_match ic txt (Alt ws # p) i g =
     alt_try (\<lambda>n. rx_match ic txt p (i + n) g) (\<lambda>w. lit_at ic w txt i) ws"

text \<open>
  \<^verbatim>\<open>re.finditer\<close>: the matches from left to right, each search starting where the
  match before ended. A match is kept as its start, its end and the text of group 1.
  Every pattern of the program consumes a character, so a match is never empty; the
  scan moves on by one where it would be.
\<close>

type_synonym rmatch = "nat \<times> nat \<times> string"

function finditer_from :: "bool \<Rightarrow> atom list \<Rightarrow> string \<Rightarrow> nat \<Rightarrow> rmatch list" where
  "finditer_from ic p txt i =
     (if length txt < i then []
      else (case rx_match ic txt p i (0, 0) of
              None \<Rightarrow> finditer_from ic p txt (Suc i)
            | Some (e, s, t) \<Rightarrow>
                (i, e, take (t - s) (drop s txt))
                  # finditer_from ic p txt (if i < e then e else Suc i)))"
  by pat_completeness auto
termination
  by (relation "measure (\<lambda>(ic, p, txt, i). Suc (length txt) - i)") auto

declare finditer_from.simps [simp del]

definition finditer :: "bool \<Rightarrow> atom list \<Rightarrow> string \<Rightarrow> rmatch list" where
  "finditer ic p txt = finditer_from ic p txt 0"

text \<open>\<^verbatim>\<open>re.search\<close>: the leftmost match, if there is one.\<close>

definition re_search :: "bool \<Rightarrow> atom list \<Rightarrow> string \<Rightarrow> rmatch option" where
  "re_search ic p txt = (case finditer ic p txt of [] \<Rightarrow> None | m # ms \<Rightarrow> Some m)"

definition group1 :: "rmatch \<Rightarrow> string" where
  "group1 m = snd (snd m)"

text \<open>The classes \<^verbatim>\<open>[a-z0-9-]\<close> and \<^verbatim>\<open>["\']\<close>, and the tail all four line patterns share.\<close>

definition id_chars :: cset where
  "id_chars = In [(CHR ''a'', CHR ''z''), (CHR ''0'', CHR ''9''), (CHR ''-'', CHR ''-'')]"

definition quote_chars :: cset where
  "quote_chars = In [(CHR 0x22, CHR 0x22), (CHR 0x27, CHR 0x27)]"

definition quoted_id_to_eol :: "atom list" where
  "quoted_id_to_eol =
     [Star Ws, Opt quote_chars, Open, Plus id_chars, Close, Opt quote_chars, Star Ws, Eol]"

text \<open>\<^verbatim>\<open>^id:\s*["\']?([a-z0-9-]+)["\']?\s*$\<close>\<close>

definition rx_entry_id :: "atom list" where
  "rx_entry_id = [Bol, Lit ''id:''] @ quoted_id_to_eol"

text \<open>\<^verbatim>\<open>^\s*-\s*id:\s*["\']?([a-z0-9-]+)["\']?\s*$\<close>\<close>

definition rx_list_id :: "atom list" where
  "rx_list_id = [Bol, Star Ws, Lit ''-'', Star Ws, Lit ''id:''] @ quoted_id_to_eol"

text \<open>\<^verbatim>\<open>^\s*pattern_id:\s*["\']?([a-z0-9-]+)["\']?\s*$\<close>\<close>

definition rx_pattern_id :: "atom list" where
  "rx_pattern_id = [Bol, Star Ws, Lit ''pattern_id:''] @ quoted_id_to_eol"

text \<open>\<^verbatim>\<open>^\s*provider:\s*["\']?([a-z0-9-]+)["\']?\s*$\<close>\<close>

definition rx_provider :: "atom list" where
  "rx_provider = [Bol, Star Ws, Lit ''provider:''] @ quoted_id_to_eol"

text \<open>\<^verbatim>\<open>from_catalog:\s*\[([^\]]+)\]\<close>\<close>

definition rx_from_catalog :: "atom list" where
  "rx_from_catalog =
     [Lit ''from_catalog:'', Star Ws, Lit ''['', Open, Plus (NotIn [(CHR '']'', CHR '']'')]), Close,
      Lit '']'']"

text \<open>\<^verbatim>\<open>\|\s*[^|]+\s*\|\s*([a-z0-9-]+)\s*\|\s*(matched|auto-applied|selected)\<close>, with \<^verbatim>\<open>re.IGNORECASE\<close>\<close>

definition rx_plan_row :: "atom list" where
  "rx_plan_row =
     [Lit ''|'', Star Ws, Plus (NotIn [(CHR ''|'', CHR ''|'')]), Star Ws, Lit ''|'', Star Ws,
      Open, Plus id_chars, Close, Star Ws, Lit ''|'', Star Ws,
      Alt [''matched'', ''auto-applied'', ''selected'']]"

section \<open>Collecting the references\<close>

text \<open>
  \<^verbatim>\<open>for match in re.finditer(...): ids.append((manifest, match.group(1)))\<close>
\<close>

fun append_matches :: "path \<Rightarrow> rmatch list \<Rightarrow> reference list \<Rightarrow> reference list" where
  "append_matches f [] ids = ids"
| "append_matches f (m # ms) ids = append_matches f ms (ids @ [(f, group1 m)])"

text \<open>
  \<^verbatim>\<open>
  for item in items:
      item = item.strip().strip('"').strip("'")
      if item:
          ids.append((manifest, item))
  \<close>
\<close>

fun append_items :: "path \<Rightarrow> string list \<Rightarrow> reference list \<Rightarrow> reference list" where
  "append_items f [] ids = ids"
| "append_items f (item # items) ids =
     (let item' = strip_chars [CHR 0x27] (strip_chars [CHR 0x22] (strip_ws item))
      in append_items f items (if item' \<noteq> [] then ids @ [(f, item')] else ids))"

fun append_catalog_lists :: "path \<Rightarrow> rmatch list \<Rightarrow> reference list \<Rightarrow> reference list" where
  "append_catalog_lists f [] ids = ids"
| "append_catalog_lists f (m # ms) ids =
     append_catalog_lists f ms (append_items f (split_on CHR '','' (group1 m)) ids)"

text \<open>The body of the \<^verbatim>\<open>try\<close> of one manifest, once its text is read.\<close>

definition scan_manifest :: "path \<Rightarrow> string \<Rightarrow> reference list \<Rightarrow> reference list" where
  "scan_manifest manifest content ids =
     (let ids1 = append_matches manifest (finditer False rx_list_id content) ids;
          ids2 = append_matches manifest (finditer False rx_pattern_id content) ids1;
          ids3 = append_matches manifest (finditer False rx_provider content) ids2
      in append_catalog_lists manifest (finditer False rx_from_catalog content) ids3)"

text \<open>
  The loop over the documents: a document that cannot be read leaves a warning and
  the loop goes on (\<^verbatim>\<open>except Exception\<close>).
\<close>

fun manifests_loop ::
  "(path \<times> read_result) list \<Rightarrow> reference list \<times> diag list \<Rightarrow> reference list \<times> diag list" where
  "manifests_loop [] st = st"
| "manifests_loop ((manifest, r) # rest) (ids, err) =
     manifests_loop rest
       (case r of
          Unreadable e \<Rightarrow> (ids, err @ [WarnRead manifest])
        | Content content \<Rightarrow> (scan_manifest manifest content ids, err))"

definition collect_used_pattern_ids_from_manifests ::
  "snapshot \<Rightarrow> path \<Rightarrow> reference list \<times> diag list" where
  "collect_used_pattern_ids_from_manifests fs manifests_dir =
     manifests_loop (rglob (ends_with ''.yaml'') manifests_dir (manifests_tree fs)) ([], [])"

fun plans_loop ::
  "(path \<times> read_result) list \<Rightarrow> reference list \<times> diag list \<Rightarrow> reference list \<times> diag list" where
  "plans_loop [] st = st"
| "plans_loop ((plan_file, r) # rest) (ids, err) =
     plans_loop rest
       (case r of
          Unreadable e \<Rightarrow> (ids, err @ [WarnRead plan_file])
        | Content content \<Rightarrow>
            (append_matches plan_file (finditer True rx_plan_row content) ids, err))"

definition collect_used_pattern_ids_from_plans ::
  "snapshot \<Rightarrow> path \<Rightarrow> reference list \<times> diag list" where
  "collect_used_pattern_ids_from_plans fs specs_dir =
     plans_loop (rglob (\<lambda>name. name = ''plan.md'') specs_dir (specs_tree fs)) ([], [])"

section \<open>Loading the valid identifiers\<close>

text \<open>
  The operations of Python the loader applies to what \<^verbatim>\<open>json.loads\<close> returned:
  \<^verbatim>\<open>x.get(key, default)\<close> (only a dict has it), \<^verbatim>\<open>x.values()\<close>, the iteration of a
  \<^verbatim>\<open>for\<close> loop (a dict gives its keys, a str its characters), the truth value of
  \<^verbatim>\<open>if pid:\<close>, and \<^verbatim>\<open>ids.add(pid)\<close>, which needs a hashable value. A dict is kept
  as the list of its items, each key once.
\<close>

fun dict_get :: "json \<Rightarrow> string \<Rightarrow> json \<Rightarrow> py_error + json" where
  "dict_get (JObj kvs) key dflt = Inr (case map_of kvs key of Some v \<Rightarrow> v | None \<Rightarrow> dflt)"
| "dict_get _ key dflt = Inl AttributeError"

fun dict_values :: "json \<Rightarrow> py_error + json list" where
  "dict_values (JObj kvs) = Inr (map snd kvs)"
| "dict_values _ = Inl AttributeError"

fun py_iter :: "json \<Rightarrow> py_error + json list" where
  "py_iter (JArr xs) = Inr xs"
| "py_iter (JObj kvs) = Inr (map (\<lambda>kv. JStr (fst kv)) kvs)"
| "py_iter (JStr s) = Inr (map (\<lambda>c. JStr [c]) s)"
| "py_iter _ = Inl TypeError"

fun truthy :: "json \<Rightarrow> bool" where
  "truthy JNull = False"
| "truthy (JBool b) = b"
| "truthy (JInt n) = (n \<noteq> 0)"
| "truthy (JStr s) = (s \<noteq> [])"
| "truthy (JArr xs) = (xs \<noteq> [])"
| "truthy (JObj kvs) = (kvs \<noteq> [])"

fun hashable :: "json \<Rightarrow> bool" where
  "hashable (JArr xs) = False"
| "hashable (JObj kvs) = False"
| "hashable _ = True"

definition set_insert :: "json \<Rightarrow> json list \<Rightarrow> json list" where
  "set_insert x ids = (if py_in x ids then ids else ids @ [x])"

definition set_add :: "json \<Rightarrow> json list \<Rightarrow> py_error + json list" where
  "set_add x ids = (if hashable x then Inr (set_insert x ids) else Inl TypeError)"

text \<open>
  \<^verbatim>\<open>
  for p in ...:
      pid = p.get("id")
      if pid:
          ids.add(pid)
  \<close>
  The set is changed in place, so an exception leaves it as it stands at the raise:
  a failing loop returns the exception with the set.
\<close>

fun add_ids :: "json list \<Rightarrow> json list \<Rightarrow> (py_error \<times> json list) + json list" where
  "add_ids [] ids = Inr ids"
| "add_ids (p # ps) ids =
     (case dict_get p ''id'' JNull of
        Inl e \<Rightarrow> Inl (e, ids)
      | Inr pid \<Rightarrow>
          if truthy pid then
            (case set_add pid ids of
               Inl e \<Rightarrow> Inl (e, ids)
             | Inr ids' \<Rightarrow> add_ids ps ids')
          else add_ids ps ids)"

text \<open>
  \<^verbatim>\<open>
  for category in (data.get("categories") or {}).values():
      for p in category.get("patterns", []) if isinstance(category, dict) else []:
          ...
  \<close>
\<close>

fun add_categories :: "json list \<Rightarrow> json list \<Rightarrow> (py_error \<times> json list) + json list" where
  "add_categories [] ids = Inr ids"
| "add_categories (category # categories) ids =
     (case (case category of
              JObj kvs \<Rightarrow> dict_get category ''patterns'' (JArr [])
            | _ \<Rightarrow> Inr (JArr [])) of
        Inl e \<Rightarrow> Inl (e, ids)
      | Inr ps \<Rightarrow>
          (case py_iter ps of
             Inl e \<Rightarrow> Inl (e, ids)
           | Inr items \<Rightarrow>
               (case add_ids items ids of
                  Inl x \<Rightarrow> Inl x
                | Inr ids' \<Rightarrow> add_categories categories ids')))"

text \<open>The body of the \<^verbatim>\<open>try\<close> after \<^verbatim>\<open>json.loads\<close> has returned \<open>data\<close>.\<close>

definition index_body :: "json \<Rightarrow> json list \<Rightarrow> (py_error \<times> json list) + json list" where
  "index_body data ids =
     (case dict_get data ''patterns'' (JArr []) of
        Inl e \<Rightarrow> Inl (e, ids)
      | Inr ps \<Rightarrow>
          (case py_iter ps of
             Inl e \<Rightarrow> Inl (e, ids)
           | Inr items \<Rightarrow>
               (case add_ids items ids of
                  Inl x \<Rightarrow> Inl x
                | Inr ids1 \<Rightarrow>
                    (case dict_get data ''categories'' JNull of
                       Inl e \<Rightarrow> Inl (e, ids1)
                     | Inr c \<Rightarrow>
                         (case dict_values (if truthy c then c else JObj []) of
                            Inl e \<Rightarrow> Inl (e, ids1)
                          | Inr categories \<Rightarrow> add_categories categories ids1)))))"

text \<open>
  The \<^verbatim>\<open>try\<close> statement on the index: \<^verbatim>\<open>except (json.JSONDecodeError, KeyError)\<close>
  prints a warning and goes on; any other exception leaves the function.
\<close>

definition load_index :: "index_file \<Rightarrow> path \<Rightarrow> json list \<Rightarrow> py_error + (json list \<times> diag list)" where
  "load_index idx index_path ids =
     (case idx of
        NoIndex \<Rightarrow> Inr (ids, [])
      | _ \<Rightarrow>
          (case (case idx of
                   ReadFails e \<Rightarrow> Inl (e, ids)
                 | NotJson \<Rightarrow> Inl (JSONDecodeError, ids)
                 | Json data \<Rightarrow> index_body data ids) of
             Inr ids' \<Rightarrow> Inr (ids', [])
           | Inl (e, ids') \<Rightarrow>
               if e = JSONDecodeError \<or> e = KeyError then Inr (ids', [WarnParse index_path])
               else Inl e))"

text \<open>
  \<^verbatim>\<open>
  for yaml_file in patterns_dir.rglob("*.yaml"):
      stem = yaml_file.stem
      ids.add(stem)
      try:
          content = yaml_file.read_text(encoding="utf-8")
          match = re.search(..., content, re.MULTILINE)
          if match:
              ids.add(match.group(1))
      except Exception:
          pass
  \<close>
\<close>

fun add_entry_files :: "(path \<times> read_result) list \<Rightarrow> json list \<Rightarrow> json list" where
  "add_entry_files [] ids = ids"
| "add_entry_files ((yaml_file, r) # rest) ids =
     (let ids1 = set_insert (JStr (stem (path_name yaml_file))) ids;
          ids2 = (case r of
                    Unreadable e \<Rightarrow> ids1
                  | Content content \<Rightarrow>
                      (case re_search False rx_entry_id content of
                         None \<Rightarrow> ids1
                       | Some m \<Rightarrow> set_insert (JStr (group1 m)) ids1))
      in add_entry_files rest ids2)"

definition load_valid_pattern_ids :: "snapshot \<Rightarrow> path \<Rightarrow> py_error + (json list \<times> diag list)" where
  "load_valid_pattern_ids fs catalog_dir =
     (case load_index (index_json fs) (catalog_dir @ [''index.json'']) [] of
        Inl e \<Rightarrow> Inl e
      | Inr (ids, warnings) \<Rightarrow>
          Inr (add_entry_files
                 (rglob (ends_with ''.yaml'') (catalog_dir @ [''patterns'']) (patterns_tree fs)) ids,
               warnings))"

section \<open>The report and the exit code\<close>

text \<open>
  \<^verbatim>\<open>sorted(valid_ids)\<close>: strings sort among themselves, numbers among themselves; a
  str cannot be compared with a number (\<^verbatim>\<open>TypeError\<close>).
\<close>

fun is_str :: "json \<Rightarrow> bool" where
  "is_str (JStr s) = True"
| "is_str _ = False"

fun str_of :: "json \<Rightarrow> string" where
  "str_of (JStr s) = s"
| "str_of _ = []"

definition num_val :: "json \<Rightarrow> int" where
  "num_val x = (case num_of x of Some n \<Rightarrow> n | None \<Rightarrow> 0)"

definition py_sorted :: "json list \<Rightarrow> py_error + json list" where
  "py_sorted xs =
     (if list_all is_str xs then Inr (map JStr (sort (map str_of xs)))
      else if list_all (\<lambda>x. num_of x \<noteq> None) xs then Inr (sort_key num_val xs)
      else if length xs \<le> 1 then Inr xs
      else Inl TypeError)"

text \<open>The text an f-string gives a member of the set.\<close>

fun py_str :: "json \<Rightarrow> string" where
  "py_str (JStr s) = s"
| "py_str (JInt n) = show_int n"
| "py_str (JBool b) = (if b then ''True'' else ''False'')"
| "py_str JNull = ''None''"
| "py_str _ = []"

text \<open>
  \<^verbatim>\<open>
  for source_file, pid in errors:
      rel_path = source_file.relative_to(project_root) if source_file.is_relative_to(project_root) else source_file
      print(f"  - '{pid}' in {rel_path}")
  \<close>
\<close>

definition error_line :: "path \<Rightarrow> reference \<Rightarrow> string" where
  "error_line project_root r =
     (let source_file = fst r; pid = snd r;
          rel_path = (if is_relative_to source_file project_root
                      then rel_path_str (relative_to source_file project_root)
                      else abs_path_str source_file)
      in ''  - '' @ [CHR 0x27] @ pid @ [CHR 0x27] @ '' in '' @ rel_path)"

fun print_errors :: "path \<Rightarrow> reference list \<Rightarrow> string list \<Rightarrow> string list" where
  "print_errors project_root [] out = out"
| "print_errors project_root (r # errors) out =
     print_errors project_root errors (out @ [error_line project_root r])"

text \<open>\<^verbatim>\<open>for pid in ...: print(f"<indent>- {pid}")\<close>\<close>

fun print_ids :: "string \<Rightarrow> json list \<Rightarrow> string list \<Rightarrow> string list" where
  "print_ids indent [] out = out"
| "print_ids indent (pid # pids) out = print_ids indent pids (out @ [indent @ ''- '' @ py_str pid])"

text \<open>
  Lines 161--178: what is printed, the exception that ends the printing if there is
  one, and the exit code (an uncaught exception ends the process with code 1).
\<close>

definition report ::
  "path \<Rightarrow> json list \<Rightarrow> reference list \<Rightarrow> reference list \<Rightarrow> string list \<times> py_error option \<times> nat" where
  "report project_root valid_ids used_ids errors =
     (if errors \<noteq> [] then
        (let out = print_errors project_root errors [''[ERROR] Unknown pattern IDs found:'']
                     @ [[], ''Available pattern IDs:'']
         in case py_sorted valid_ids of
              Inl e \<Rightarrow> (out, Some e, 1)
            | Inr sorted_ids \<Rightarrow>
                (let out2 = print_ids ''  '' (take 20 sorted_ids) out;
                     out3 = (if length valid_ids > 20
                             then out2 @ [''  ... and '' @ show_nat (length valid_ids - 20) @ '' more'']
                             else out2)
                 in (out3, None, 1)))
      else if used_ids \<noteq> [] then
        ([''[OK] All '' @ show_nat (length used_ids) @ '' pattern ID references are valid.''], None, 0)
      else ([''[OK] No pattern ID references found to validate.''], None, 0))"

text \<open>Lines 140--144, printed with \<^verbatim>\<open>--verbose\<close>.\<close>

definition verbose_valid :: "json list \<Rightarrow> string list \<times> py_error option" where
  "verbose_valid valid_ids =
     (let out = [''[INFO] Found '' @ show_nat (length valid_ids) @ '' valid pattern IDs in catalog'']
      in case py_sorted valid_ids of
           Inl e \<Rightarrow> (out, Some e)
         | Inr sorted_ids \<Rightarrow> (print_ids ''       '' sorted_ids out @ [[]], None))"

record outcome =
  stdout :: "string list"
  stderr :: "diag list"
  exit_code :: nat

text \<open>
  Lines 146--149: \<^verbatim>\<open>used_ids\<close> is what the manifest collector returns, extended by
  what the plan collector returns.
\<close>

definition collected_references :: "snapshot \<Rightarrow> path \<Rightarrow> reference list" where
  "collected_references fs project_root =
     fst (collect_used_pattern_ids_from_manifests fs (project_root @ [''manifests'']))
     @ fst (collect_used_pattern_ids_from_plans fs (project_root @ [''specs'']))"

text \<open>The run from line 146 on, once the valid identifiers are loaded and listed.\<close>

definition check_references ::
  "bool \<Rightarrow> path \<Rightarrow> snapshot \<Rightarrow> json list \<Rightarrow> string list \<Rightarrow> diag list \<Rightarrow> outcome" where
  "check_references verbose project_root fs valid_ids out err =
     (let m_err = snd (collect_used_pattern_ids_from_manifests fs (project_root @ [''manifests'']));
          p_err = snd (collect_used_pattern_ids_from_plans fs (project_root @ [''specs'']));
          used_ids = collected_references fs project_root;
          out1 = (if verbose
                  then out @ [''[INFO] Found '' @ show_nat (length used_ids) @ '' pattern ID references'', []]
                  else out);
          errors = validate valid_ids used_ids;
          (out2, exc, code) = report project_root valid_ids used_ids errors
      in \<lparr> stdout = out1 @ out2,
           stderr = err @ m_err @ p_err @ (case exc of None \<Rightarrow> [] | Some e \<Rightarrow> [Traceback e]),
           exit_code = code \<rparr>)"

text \<open>The run from line 140 on, with the valid identifiers the loader returned.\<close>

definition run_with :: "bool \<Rightarrow> path \<Rightarrow> snapshot \<Rightarrow> json list \<Rightarrow> diag list \<Rightarrow> outcome" where
  "run_with verbose project_root fs valid_ids warnings =
     (case (if verbose then verbose_valid valid_ids else ([], None)) of
        (out, Some e) \<Rightarrow> \<lparr> stdout = out, stderr = warnings @ [Traceback e], exit_code = 1 \<rparr>
      | (out, None) \<Rightarrow> check_references verbose project_root fs valid_ids out warnings)"

text \<open>
  The whole run. An exception that nothing catches ends the process with a traceback
  on the error stream and exit code 1.
\<close>

definition main :: "bool \<Rightarrow> path \<Rightarrow> snapshot \<Rightarrow> outcome" where
  "main verbose project_root fs =
     (case load_valid_pattern_ids fs (project_root @ [''catalog'']) of
        Inl e \<Rightarrow> \<lparr> stdout = [], stderr = [Traceback e], exit_code = 1 \<rparr>
      | Inr (valid_ids, warnings) \<Rightarrow> run_with verbose project_root fs valid_ids warnings)"

section \<open>Notions of the specification\<close>

text \<open>
  The lexical rule of an identifier, \<^verbatim>\<open>[a-z0-9-]+\<close>: not empty, lower-case letters,
  digits and hyphens only.
\<close>

definition id_char :: "char \<Rightarrow> bool" where
  "id_char c = (CHR ''a'' \<le> c \<and> c \<le> CHR ''z'' \<or> CHR ''0'' \<le> c \<and> c \<le> CHR ''9'' \<or> c = CHR ''-'')"

definition is_identifier :: "string \<Rightarrow> bool" where
  "is_identifier s = (s \<noteq> [] \<and> list_all id_char s)"

text \<open>
  The elements of an inline list \<^verbatim>\<open>from_catalog: [...]\<close>: separated by commas,
  trimmed of whitespace and quotes, the empty ones dropped.
\<close>

definition inline_elements :: "string \<Rightarrow> string list" where
  "inline_elements g =
     filter (\<lambda>item. item \<noteq> [])
       (map (\<lambda>item. strip_chars [CHR 0x27] (strip_chars [CHR 0x22] (strip_ws item)))
          (split_on CHR '','' g))"

text \<open>
  The four sources of a valid identifier. From the index: the identifier field of each
  entry of the top-level list, and of each entry of the list of each category group; an
  entry counts when it is an object whose \<^verbatim>\<open>id\<close> is true. From the entry files (the
  \<^verbatim>\<open>*.yaml\<close> entries below \<^verbatim>\<open>catalog/patterns\<close>): the base name of each file, and
  the identifier its first top-level \<^verbatim>\<open>id:\<close> line declares, when the file can be read.
\<close>

fun field :: "json \<Rightarrow> string \<Rightarrow> json option" where
  "field (JObj kvs) key = map_of kvs key"
| "field _ key = None"

definition entry_id :: "json \<Rightarrow> json list" where
  "entry_id p = (case field p ''id'' of Some pid \<Rightarrow> if truthy pid then [pid] else [] | None \<Rightarrow> [])"

fun entry_ids :: "json \<Rightarrow> json list" where
  "entry_ids (JArr ps) = concat (map entry_id ps)"
| "entry_ids _ = []"

definition group_ids :: "json \<Rightarrow> json list" where
  "group_ids grp = (case field grp ''patterns'' of Some ps \<Rightarrow> entry_ids ps | None \<Rightarrow> [])"

definition index_top_ids :: "index_file \<Rightarrow> json list" where
  "index_top_ids idx = (case idx of Json data \<Rightarrow> group_ids data | _ \<Rightarrow> [])"

definition index_category_ids :: "index_file \<Rightarrow> json list" where
  "index_category_ids idx =
     (case idx of
        Json data \<Rightarrow>
          (case field data ''categories'' of
             Some (JObj groups) \<Rightarrow> concat (map (\<lambda>kv. group_ids (snd kv)) groups)
           | _ \<Rightarrow> [])
      | _ \<Rightarrow> [])"

definition entry_files :: "snapshot \<Rightarrow> (path \<times> read_result) list" where
  "entry_files fs =
     filter (\<lambda>(rel, r). rel \<noteq> [] \<and> ends_with ''.yaml'' (path_name rel)) (patterns_tree fs)"

definition base_name_ids :: "snapshot \<Rightarrow> json list" where
  "base_name_ids fs = map (\<lambda>(rel, r). JStr (stem (path_name rel))) (entry_files fs)"

definition declared_id :: "read_result \<Rightarrow> json list" where
  "declared_id r =
     (case r of
        Unreadable e \<Rightarrow> []
      | Content c \<Rightarrow> (case re_search False rx_entry_id c of None \<Rightarrow> [] | Some m \<Rightarrow> [JStr (group1 m)]))"

definition declared_ids :: "snapshot \<Rightarrow> json list" where
  "declared_ids fs = concat (map (\<lambda>(rel, r). declared_id r) (entry_files fs))"

text \<open>
  The shape of the index the interface describes: an object; its \<^verbatim>\<open>patterns\<close>, when
  present, a list of objects whose \<^verbatim>\<open>id\<close> is absent or a scalar; its \<^verbatim>\<open>categories\<close>,
  when present, an object of groups of that same shape.
\<close>

definition entry_ok :: "json \<Rightarrow> bool" where
  "entry_ok p = (case p of
                   JObj kvs \<Rightarrow> (case map_of kvs ''id'' of None \<Rightarrow> True | Some pid \<Rightarrow> hashable pid)
                 | _ \<Rightarrow> False)"

definition group_ok :: "json \<Rightarrow> bool" where
  "group_ok grp = (case grp of
                     JObj kvs \<Rightarrow> (case map_of kvs ''patterns'' of
                                    None \<Rightarrow> True
                                  | Some (JArr ps) \<Rightarrow> list_all entry_ok ps
                                  | Some _ \<Rightarrow> False)
                   | _ \<Rightarrow> False)"

definition index_ok :: "json \<Rightarrow> bool" where
  "index_ok data =
     (group_ok data \<and>
      (case field data ''categories'' of
         None \<Rightarrow> True
       | Some (JObj groups) \<Rightarrow> list_all (\<lambda>kv. group_ok (snd kv)) groups
       | Some _ \<Rightarrow> False))"

text \<open>The index is absent, is not JSON, or has the shape above: the cases the loader is written for.\<close>

definition index_loads :: "index_file \<Rightarrow> bool" where
  "index_loads idx =
     (case idx of NoIndex \<Rightarrow> True | NotJson \<Rightarrow> True | Json data \<Rightarrow> index_ok data | ReadFails e \<Rightarrow> False)"






text \<open>
  What makes a list the members of a Python set: no member twice, and no two members
  equal by Python's \<^verbatim>\<open>==\<close>.
\<close>

definition py_set :: "json list \<Rightarrow> bool" where
  "py_set ids = (distinct ids \<and> list_all (\<lambda>x. list_all (\<lambda>y. py_eq x y \<longrightarrow> x = y) ids) ids)"

section \<open>Example file trees\<close>

text \<open>
  A manifest whose lines stand in another order than the collector reads them:
  \<^verbatim>\<open>pattern_id: b\<close>, \<^verbatim>\<open>- id: a\<close>, \<^verbatim>\<open>from_catalog: [c, 'd']\<close>, \<^verbatim>\<open>provider: e\<close>.
\<close>

definition demo_manifest :: string where
  "demo_manifest =
     ''pattern_id: b'' @ [CHR 0x0A] @ ''- id: a'' @ [CHR 0x0A]
     @ ''from_catalog: [c, '' @ [CHR 0x27] @ ''d'' @ [CHR 0x27] @ '']'' @ [CHR 0x0A]
     @ ''provider: e'' @ [CHR 0x0A]"

text \<open>
  A catalog with both index shapes and two entry files, one of which cannot be read:
  \<^verbatim>\<open>{"patterns": [{"id": "top-one"}, {"id": ""}, {"name": "x"}],
    "categories": {"legacy": {"patterns": [{"id": "legacy-one"}]}}}\<close>
  and a manifest with the line \<^verbatim>\<open>from_catalog: [a, , '']\<close>.
\<close>

definition demo_catalog :: snapshot where
  "demo_catalog =
     \<lparr> index_json =
         Json (JObj [(''patterns'', JArr [JObj [(''id'', JStr ''top-one'')], JObj [(''id'', JStr [])],
                                         JObj [(''name'', JStr ''x'')]]),
                     (''categories'',
                      JObj [(''legacy'', JObj [(''patterns'', JArr [JObj [(''id'', JStr ''legacy-one'')]])])])]),
       patterns_tree =
         [([''core'', ''file-one.yaml''], Content (''name: x'' @ [CHR 0x0A] @ ''id: declared-one'' @ [CHR 0x0A])),
          ([''broken.yaml''], Unreadable UnicodeDecodeError),
          ([''README.md''], Content ''id: not-an-entry'')],
       manifests_tree =
         [([''m.yaml''], Content (''from_catalog: [a, , '' @ [CHR 0x27, CHR 0x27] @ '']''))],
       specs_tree = [] \<rparr>"

text \<open>An index file that holds the JSON text \<^verbatim>\<open>[]\<close>, beside one good entry file.\<close>

definition array_index_catalog :: snapshot where
  "array_index_catalog =
     \<lparr> index_json = Json (JArr []),
       patterns_tree = [([''good.yaml''], Content ''id: good'')],
       manifests_tree = [],
       specs_tree = [] \<rparr>"

text \<open>
  An entry file \<^verbatim>\<open>My_Pattern.yaml\<close>, and a manifest with the line
  \<^verbatim>\<open>from_catalog: [Foo Bar]\<close>.
\<close>

definition verbatim_ids_tree :: snapshot where
  "verbatim_ids_tree =
     \<lparr> index_json = NoIndex,
       patterns_tree = [([''My_Pattern.yaml''], Content [])],
       manifests_tree = [([''m.yaml''], Content ''from_catalog: [Foo Bar]'')],
       specs_tree = [] \<rparr>"




text \<open>
  Scenarios A, B and D of the specification. A: the index lists
  \<^verbatim>\<open>feature-create-entity\<close> and a manifest has the line \<^verbatim>\<open>- id: feature-create-entity\<close>.
  B: an empty catalog and a manifest with \<^verbatim>\<open>provider: some-provider\<close>. D: no document
  at all.
\<close>

definition scenario_a :: snapshot where
  "scenario_a =
     \<lparr> index_json = Json (JObj [(''patterns'', JArr [JObj [(''id'', JStr ''feature-create-entity'')]])]),
       patterns_tree = [],
       manifests_tree =
         [([''app.yaml''], Content (''from_catalog:'' @ [CHR 0x0A] @ ''  - id: feature-create-entity'' @ [CHR 0x0A]))],
       specs_tree = [] \<rparr>"

definition scenario_b :: snapshot where
  "scenario_b =
     \<lparr> index_json = NoIndex,
       patterns_tree = [],
       manifests_tree = [([''app.yaml''], Content ''provider: some-provider'')],
       specs_tree = [] \<rparr>"

definition scenario_d :: snapshot where
  "scenario_d = \<lparr> index_json = NoIndex, patterns_tree = [], manifests_tree = [], specs_tree = [] \<rparr>"

text \<open>
  A catalog of 22 entry files \<^verbatim>\<open>p1.yaml\<close> to \<^verbatim>\<open>p22.yaml\<close>, and a manifest in a
  subdirectory that names an identifier the catalog does not have.
\<close>

definition big_catalog :: snapshot where
  "big_catalog =
     \<lparr> index_json = NoIndex,
       patterns_tree = map (\<lambda>n. ([''p'' @ show_nat n @ ''.yaml''], Content [])) [1..<23],
       manifests_tree = [([''svc'', ''app.yaml''], Content ''pattern_id: missing-one'')],
       specs_tree = [] \<rparr>"

text \<open>
  An index that gives one identifier as a string and one as a number,
  \<^verbatim>\<open>{"patterns": [{"id": "a"}, {"id": 5}]}\<close>, with a manifest whose one line
  \<^verbatim>\<open>- id: a\<close> resolves, and the same index with a manifest whose one line
  \<^verbatim>\<open>- id: zz\<close> does not.
\<close>

definition mixed_ids_resolved :: snapshot where
  "mixed_ids_resolved =
     \<lparr> index_json = Json (JObj [(''patterns'', JArr [JObj [(''id'', JStr ''a'')], JObj [(''id'', JInt 5)]])]),
       patterns_tree = [],
       manifests_tree = [([''m.yaml''], Content ''- id: a'')],
       specs_tree = [] \<rparr>"

definition mixed_ids_unresolved :: snapshot where
  "mixed_ids_unresolved =
     \<lparr> index_json = Json (JObj [(''patterns'', JArr [JObj [(''id'', JStr ''a'')], JObj [(''id'', JInt 5)]])]),
       patterns_tree = [],
       manifests_tree = [([''m.yaml''], Content ''- id: zz'')],
       specs_tree = [] \<rparr>"

section \<open>Properties of validation\<close>

lemma py_in_str: "py_in (JStr s) ids \<longleftrightarrow> JStr s \<in> set ids"
proof -
  have "py_eq (JStr s) y \<longleftrightarrow> y = JStr s" for y
    by (cases y) (auto simp: py_eq_def)
  then show ?thesis
    by (auto simp: py_in_def list_ex_iff)
qed

lemma validate_loop_filter:
  "validate_loop valid used errors =
     errors @ filter (\<lambda>r. JStr (snd r) \<notin> set valid) used"
  by (induction valid used errors rule: validate_loop.induct) (simp_all add: py_in_str)

text \<open>
  Claim C1. The failures are exactly the collected references whose identifier is not a
  member of the valid set, in the order of the input sequence; no reference gives no
  failure.
\<close>

theorem validate_exact_in_order:
  "validate valid used = filter (\<lambda>r. JStr (snd r) \<notin> set valid) used
   \<and> validate valid [] = []"
  by (simp add: validate_def validate_loop_filter)

theorem validate_exact_in_order_witness:
  "validate [JStr ''a''] [([''m.yaml''], ''b''), ([''m.yaml''], ''a''), ([''n.yaml''], ''c'')]
     = [([''m.yaml''], ''b''), ([''n.yaml''], ''c'')]"
  using validate_exact_in_order [of "[JStr ''a'']"
      "[([''m.yaml''], ''b''), ([''m.yaml''], ''a''), ([''n.yaml''], ''c'')]"]
  by simp

section \<open>Properties of the matcher\<close>

lemma rep_try_SomeD:
  "rep_try k lo n = Some r \<Longrightarrow> \<exists>j. lo \<le> j \<and> j \<le> n \<and> k j = Some r"
proof (induction n)
  case 0
  then show ?case by (auto split: if_splits)
next
  case (Suc n)
  show ?case
  proof (cases "k (Suc n)")
    case None
    with Suc.prems have "rep_try k lo n = Some r" by (simp split: if_splits)
    from Suc.IH [OF this] show ?thesis by (meson le_Suc_eq)
  next
    case (Some a)
    with Suc.prems have "a = r" "lo \<le> Suc n" by (auto split: if_splits)
    with Some show ?thesis by blast
  qed
qed

lemma alt_try_SomeD:
  "alt_try k here ws = Some r \<Longrightarrow> \<exists>w \<in> set ws. here w \<and> k (length w) = Some r"
  by (induction ws) (auto split: if_splits option.splits)

lemma rx_match_step:
  "rx_match ic txt (a # p) i g = Some r \<Longrightarrow> \<exists>i' g'. rx_match ic txt p i' g' = Some r"
proof (cases a)
  case (Lit w)
  assume "rx_match ic txt (a # p) i g = Some r"
  with Lit have "rx_match ic txt p (i + length w) g = Some r" by (simp split: if_splits)
  then show ?thesis by blast
next
  case (Star cs)
  assume "rx_match ic txt (a # p) i g = Some r"
  with Star have "rep_try (\<lambda>n. rx_match ic txt p (i + n) g) 0 (run_len ic cs txt i) = Some r" by simp
  from rep_try_SomeD [OF this] show ?thesis by blast
next
  case (Plus cs)
  assume "rx_match ic txt (a # p) i g = Some r"
  with Plus have "rep_try (\<lambda>n. rx_match ic txt p (i + n) g) 1 (run_len ic cs txt i) = Some r" by simp
  from rep_try_SomeD [OF this] show ?thesis by blast
next
  case (Opt cs)
  assume "rx_match ic txt (a # p) i g = Some r"
  with Opt have "rep_try (\<lambda>n. rx_match ic txt p (i + n) g) 0 (min 1 (run_len ic cs txt i)) = Some r" by simp
  from rep_try_SomeD [OF this] show ?thesis by blast
next
  case Bol
  assume "rx_match ic txt (a # p) i g = Some r"
  with Bol have "rx_match ic txt p i g = Some r" by (simp split: if_splits)
  then show ?thesis by blast
next
  case Eol
  assume "rx_match ic txt (a # p) i g = Some r"
  with Eol have "rx_match ic txt p i g = Some r" by (simp split: if_splits)
  then show ?thesis by blast
next
  case Open
  assume "rx_match ic txt (a # p) i g = Some r"
  with Open have "rx_match ic txt p i (i, snd g) = Some r" by simp
  then show ?thesis by blast
next
  case Close
  assume "rx_match ic txt (a # p) i g = Some r"
  with Close have "rx_match ic txt p i (fst g, i) = Some r" by simp
  then show ?thesis by blast
next
  case (Alt ws)
  assume "rx_match ic txt (a # p) i g = Some r"
  with Alt have "alt_try (\<lambda>n. rx_match ic txt p (i + n) g) (\<lambda>w. lit_at ic w txt i) ws = Some r" by simp
  from alt_try_SomeD [OF this] show ?thesis by blast
qed

lemma rx_match_suffix:
  "rx_match ic txt (p @ q) i g = Some r \<Longrightarrow> \<exists>i' g'. rx_match ic txt q i' g' = Some r"
proof (induction p arbitrary: i g)
  case Nil
  then show ?case by (simp only: append_Nil) blast
next
  case (Cons a p)
  from Cons.prems have "rx_match ic txt (a # (p @ q)) i g = Some r" by simp
  from rx_match_step [OF this] obtain i' g' where "rx_match ic txt (p @ q) i' g' = Some r" by blast
  from Cons.IH [OF this] show ?case .
qed

lemma rx_match_keeps_group:
  "Open \<notin> set p \<Longrightarrow> Close \<notin> set p \<Longrightarrow> rx_match ic txt p i g = Some (e, g') \<Longrightarrow> g' = g"
proof (induction p arbitrary: i)
  case Nil
  then show ?case by simp
next
  case (Cons a p)
  from Cons.prems have free: "Open \<notin> set p" "Close \<notin> set p" "a \<noteq> Open" "a \<noteq> Close" by auto
  have "\<exists>i'. rx_match ic txt p i' g = Some (e, g')"
  proof (cases a)
    case (Lit w)
    with Cons.prems(3) have "rx_match ic txt p (i + length w) g = Some (e, g')" by (simp split: if_splits)
    then show ?thesis by blast
  next
    case (Star cs)
    with Cons.prems(3) have "rep_try (\<lambda>n. rx_match ic txt p (i + n) g) 0 (run_len ic cs txt i) = Some (e, g')" by simp
    from rep_try_SomeD [OF this] show ?thesis by blast
  next
    case (Plus cs)
    with Cons.prems(3) have "rep_try (\<lambda>n. rx_match ic txt p (i + n) g) 1 (run_len ic cs txt i) = Some (e, g')" by simp
    from rep_try_SomeD [OF this] show ?thesis by blast
  next
    case (Opt cs)
    with Cons.prems(3) have "rep_try (\<lambda>n. rx_match ic txt p (i + n) g) 0 (min 1 (run_len ic cs txt i)) = Some (e, g')" by simp
    from rep_try_SomeD [OF this] show ?thesis by blast
  next
    case Bol
    with Cons.prems(3) have "rx_match ic txt p i g = Some (e, g')" by (simp split: if_splits)
    then show ?thesis by blast
  next
    case Eol
    with Cons.prems(3) have "rx_match ic txt p i g = Some (e, g')" by (simp split: if_splits)
    then show ?thesis by blast
  next
    case Open
    with free show ?thesis by simp
  next
    case Close
    with free show ?thesis by simp
  next
    case (Alt ws)
    with Cons.prems(3) have "alt_try (\<lambda>n. rx_match ic txt p (i + n) g) (\<lambda>w. lit_at ic w txt i) ws = Some (e, g')" by simp
    from alt_try_SomeD [OF this] show ?thesis by blast
  qed
  then obtain i' where "rx_match ic txt p i' g = Some (e, g')" by blast
  from Cons.IH [OF free(1,2) this] show ?case .
qed


lemma run_len_chars:
  assumes "n \<le> run_len ic cs txt i"
  shows "length (take n (drop i txt)) = n \<and> list_all (cmatch ic cs) (take n (drop i txt))"
proof -
  define xs where "xs = drop i txt"
  define tw where "tw = takeWhile (cmatch ic cs) xs"
  from assms have n: "n \<le> length tw" by (simp add: run_len_def tw_def xs_def)
  have "length tw \<le> length xs" unfolding tw_def by (rule length_takeWhile_le)
  with n have len: "length (take n xs) = n" by simp
  have "tw = take (length tw) xs" unfolding tw_def by (rule takeWhile_eq_take)
  then have "take n tw = take n (take (length tw) xs)" by simp
  also have "\<dots> = take n xs" using n by (simp add: min_def)
  finally have eq: "take n xs = take n tw" by simp
  have "\<forall>c \<in> set tw. cmatch ic cs c" unfolding tw_def by (auto dest: set_takeWhileD)
  then have "\<forall>c \<in> set (take n tw). cmatch ic cs c" by (auto dest: in_set_takeD)
  with eq have "list_all (cmatch ic cs) (take n xs)" by (simp add: list_all_iff)
  with len show ?thesis by (simp add: xs_def)
qed

lemma rx_match_group:
  assumes m: "rx_match ic txt (pre @ Open # Plus cs # Close # post) i g = Some (e, s, t)"
      and free: "Open \<notin> set post" "Close \<notin> set post"
  shows "take (t - s) (drop s txt) \<noteq> [] \<and> list_all (cmatch ic cs) (take (t - s) (drop s txt))"
proof -
  from rx_match_suffix [OF m] obtain i' g'
    where "rx_match ic txt (Open # Plus cs # Close # post) i' g' = Some (e, s, t)" by blast
  then have "rep_try (\<lambda>n. rx_match ic txt post (i' + n) (i', i' + n)) 1 (run_len ic cs txt i')
               = Some (e, s, t)" by simp
  from rep_try_SomeD [OF this] obtain n
    where n: "1 \<le> n" "n \<le> run_len ic cs txt i'"
      and post: "rx_match ic txt post (i' + n) (i', i' + n) = Some (e, s, t)" by blast
  from rx_match_keeps_group [OF free post] have st: "s = i'" "t = i' + n" by simp_all
  from run_len_chars [OF n(2)]
  have "length (take n (drop i' txt)) = n" "list_all (cmatch ic cs) (take n (drop i' txt))"
    by simp_all
  with n(1) st show ?thesis by auto
qed

lemma finditer_from_elem:
  "m \<in> set (finditer_from ic p doc i) \<Longrightarrow>
     \<exists>a e s t. i \<le> a \<and> rx_match ic doc p a (0, 0) = Some (e, s, t) \<and> m = (a, e, take (t - s) (drop s doc))"
proof (induction ic p doc i rule: finditer_from.induct)
  case (1 ic p doc i)
  show ?case
  proof (cases "length doc < i")
    case True
    with "1.prems" show ?thesis by (simp add: finditer_from.simps)
  next
    case False
    show ?thesis
    proof (cases "rx_match ic doc p i (0, 0)")
      case None
      with False "1.prems" have "m \<in> set (finditer_from ic p doc (Suc i))"
        by (simp add: finditer_from.simps [of ic p doc i])
      from "1.IH"(1) [OF False None this] obtain a e s t
        where "Suc i \<le> a" "rx_match ic doc p a (0, 0) = Some (e, s, t)"
          "m = (a, e, take (t - s) (drop s doc))" by blast
      moreover from this(1) have "i \<le> a" by simp
      ultimately show ?thesis by blast
    next
      case (Some r)
      obtain e s t where r: "r = (e, s, t)" by (cases r) auto
      from False Some r "1.prems"
      have "m = (i, e, take (t - s) (drop s doc))
            \<or> m \<in> set (finditer_from ic p doc (if i < e then e else Suc i))"
        by (simp add: finditer_from.simps [of ic p doc i])
      then show ?thesis
      proof
        assume "m = (i, e, take (t - s) (drop s doc))"
        with Some r show ?thesis by blast
      next
        assume "m \<in> set (finditer_from ic p doc (if i < e then e else Suc i))"
        from "1.IH"(2) [OF False Some r [symmetric] _ this] 
        obtain a e' s' t' where "(if i < e then e else Suc i) \<le> a"
          "rx_match ic doc p a (0, 0) = Some (e', s', t')" "m = (a, e', take (t' - s') (drop s' doc))"
          by blast
        moreover from this(1) have "i \<le> a" by (simp split: if_splits)
        ultimately show ?thesis by blast
      qed
    qed
  qed
qed

section \<open>Properties of the collectors\<close>

lemma finditer_from_starts:
  "sorted_wrt (<) (map fst (finditer_from ic p doc i))"
proof (induction ic p doc i rule: finditer_from.induct)
  case (1 ic p doc i)
  show ?case
  proof (cases "length doc < i")
    case True
    then show ?thesis by (simp add: finditer_from.simps)
  next
    case False
    show ?thesis
    proof (cases "rx_match ic doc p i (0, 0)")
      case None
      with False "1.IH"(1) show ?thesis by (simp add: finditer_from.simps [of ic p doc i])
    next
      case (Some r)
      obtain e s t where r: "r = (e, s, t)" by (cases r) auto
      let ?next = "if i < e then e else Suc i"
      have rest: "sorted_wrt (<) (map fst (finditer_from ic p doc ?next))"
        using "1.IH"(2) [OF False Some r [symmetric]] by simp
      have "i < fst m" if "m \<in> set (finditer_from ic p doc ?next)" for m
      proof -
        from finditer_from_elem [OF that] obtain a where "?next \<le> a" "fst m = a" by auto
        then show ?thesis by (simp split: if_splits)
      qed
      with rest False Some r show ?thesis
        by (simp add: finditer_from.simps [of ic p doc i])
    qed
  qed
qed

lemma append_matches_eq:
  "append_matches f ms ids = ids @ map (\<lambda>m. (f, group1 m)) ms"
  by (induction ms arbitrary: ids) simp_all

lemma append_items_eq:
  "append_items f items ids =
     ids @ map (Pair f)
             (filter (\<lambda>item. item \<noteq> [])
                (map (\<lambda>item. strip_chars [CHR 0x27] (strip_chars [CHR 0x22] (strip_ws item))) items))"
  by (induction items arbitrary: ids) (simp_all add: Let_def)

lemma append_catalog_lists_eq:
  "append_catalog_lists f ms ids =
     ids @ concat (map (\<lambda>m. map (Pair f) (inline_elements (group1 m))) ms)"
  by (induction ms arbitrary: ids) (simp_all add: append_items_eq inline_elements_def)

lemma scan_manifest_eq:
  "scan_manifest f content ids =
     ids @ map (\<lambda>m. (f, group1 m)) (finditer False rx_list_id content)
         @ map (\<lambda>m. (f, group1 m)) (finditer False rx_pattern_id content)
         @ map (\<lambda>m. (f, group1 m)) (finditer False rx_provider content)
         @ concat (map (\<lambda>m. map (Pair f) (inline_elements (group1 m)))
                     (finditer False rx_from_catalog content))"
  by (simp add: scan_manifest_def Let_def append_matches_eq append_catalog_lists_eq)

lemma manifests_loop_refs:
  "fst (manifests_loop docs (ids, err)) =
     ids @ concat (map (\<lambda>(f, r). case r of
                     Unreadable e \<Rightarrow> []
                   | Content c \<Rightarrow>
                       map (\<lambda>m. (f, group1 m)) (finditer False rx_list_id c)
                       @ map (\<lambda>m. (f, group1 m)) (finditer False rx_pattern_id c)
                       @ map (\<lambda>m. (f, group1 m)) (finditer False rx_provider c)
                       @ concat (map (\<lambda>m. map (Pair f) (inline_elements (group1 m)))
                                   (finditer False rx_from_catalog c))) docs)"
proof (induction docs arbitrary: ids err)
  case Nil
  then show ?case by simp
next
  case (Cons d docs)
  obtain f r where d: "d = (f, r)" by (cases d)
  show ?case
  proof (cases r)
    case (Unreadable e)
    with d Cons.IH show ?thesis by simp
  next
    case (Content c)
    with d Cons.IH [of "scan_manifest f c ids" err] show ?thesis
      by (simp add: scan_manifest_eq [of f c ids])
  qed
qed

lemma plans_loop_refs:
  "fst (plans_loop docs (ids, err)) =
     ids @ concat (map (\<lambda>(f, r). case r of Unreadable e \<Rightarrow> []
                                  | Content c \<Rightarrow> map (\<lambda>m. (f, group1 m)) (finditer True rx_plan_row c)) docs)"
proof (induction docs arbitrary: ids err)
  case Nil
  then show ?case by simp
next
  case (Cons d docs)
  obtain f r where d: "d = (f, r)" by (cases d)
  show ?case
  proof (cases r)
    case (Unreadable e)
    with d Cons.IH show ?thesis by simp
  next
    case (Content c)
    with d Cons.IH [of "append_matches f (finditer True rx_plan_row c) ids" err] show ?thesis
      by (simp add: append_matches_eq)
  qed
qed

text \<open>
  Claim C9. The references of the dependent-configuration root are, document after document
  in the order of the traversal, the group of the \<^verbatim>\<open>- id:\<close> matches, then the
  \<^verbatim>\<open>pattern_id:\<close> matches, then the \<^verbatim>\<open>provider:\<close> matches, then the elements of
  the inline \<^verbatim>\<open>from_catalog\<close> lists; a document that cannot be read gives none. Within
  a group the matches stand in the order of the text: their starts increase.
\<close>

theorem manifest_references_grouped:
  "fst (collect_used_pattern_ids_from_manifests fs dir) =
     concat (map (\<lambda>(f, r). case r of
                     Unreadable e \<Rightarrow> []
                   | Content c \<Rightarrow>
                       map (\<lambda>m. (f, group1 m)) (finditer False rx_list_id c)
                       @ map (\<lambda>m. (f, group1 m)) (finditer False rx_pattern_id c)
                       @ map (\<lambda>m. (f, group1 m)) (finditer False rx_provider c)
                       @ concat (map (\<lambda>m. map (Pair f) (inline_elements (group1 m)))
                                   (finditer False rx_from_catalog c)))
               (rglob (ends_with ''.yaml'') dir (manifests_tree fs)))
   \<and> sorted_wrt (<) (map fst (finditer ic p doc))"
proof
  show "sorted_wrt (<) (map fst (finditer ic p doc))"
    by (simp add: finditer_def finditer_from_starts)
  show "fst (collect_used_pattern_ids_from_manifests fs dir) =
     concat (map (\<lambda>(f, r). case r of
                     Unreadable e \<Rightarrow> []
                   | Content c \<Rightarrow>
                       map (\<lambda>m. (f, group1 m)) (finditer False rx_list_id c)
                       @ map (\<lambda>m. (f, group1 m)) (finditer False rx_pattern_id c)
                       @ map (\<lambda>m. (f, group1 m)) (finditer False rx_provider c)
                       @ concat (map (\<lambda>m. map (Pair f) (inline_elements (group1 m)))
                                   (finditer False rx_from_catalog c)))
               (rglob (ends_with ''.yaml'') dir (manifests_tree fs)))"
    by (simp add: collect_used_pattern_ids_from_manifests_def manifests_loop_refs)
qed

theorem manifest_references_grouped_witness:
  "fst (collect_used_pattern_ids_from_manifests
          \<lparr> index_json = NoIndex, patterns_tree = [],
            manifests_tree = [([''app'', ''m.yaml''], Content demo_manifest),
                              ([''app'', ''notes.txt''], Content ''- id: x''),
                              ([''n.yaml''], Unreadable OSError)],
            specs_tree = [] \<rparr> [''manifests''])
   = [([''manifests'', ''app'', ''m.yaml''], ''a''), ([''manifests'', ''app'', ''m.yaml''], ''b''),
      ([''manifests'', ''app'', ''m.yaml''], ''e''), ([''manifests'', ''app'', ''m.yaml''], ''c''),
      ([''manifests'', ''app'', ''m.yaml''], ''d'')]"
proof -
  let ?fs = "\<lparr> index_json = NoIndex, patterns_tree = [],
            manifests_tree = [([''app'', ''m.yaml''], Content demo_manifest),
                              ([''app'', ''notes.txt''], Content ''- id: x''),
                              ([''n.yaml''], Unreadable OSError)],
            specs_tree = [] \<rparr>"
  have "concat (map (\<lambda>(f, r). case r of
                     Unreadable e \<Rightarrow> []
                   | Content c \<Rightarrow>
                       map (\<lambda>m. (f, group1 m)) (finditer False rx_list_id c)
                       @ map (\<lambda>m. (f, group1 m)) (finditer False rx_pattern_id c)
                       @ map (\<lambda>m. (f, group1 m)) (finditer False rx_provider c)
                       @ concat (map (\<lambda>m. map (Pair f) (inline_elements (group1 m)))
                                   (finditer False rx_from_catalog c)))
               (rglob (ends_with ''.yaml'') [''manifests''] (manifests_tree ?fs)))
   = [([''manifests'', ''app'', ''m.yaml''], ''a''), ([''manifests'', ''app'', ''m.yaml''], ''b''),
      ([''manifests'', ''app'', ''m.yaml''], ''e''), ([''manifests'', ''app'', ''m.yaml''], ''c''),
      ([''manifests'', ''app'', ''m.yaml''], ''d'')]"
    by code_simp
  with manifest_references_grouped [of ?fs "[''manifests'']"] show ?thesis by simp
qed

section \<open>What the patterns capture\<close>

lemma cmatch_id_chars: "cmatch False id_chars c = id_char c"
  by (simp add: id_chars_def id_char_def fold_case_def) (auto simp: order.antisym)

lemma finditer_group:
  assumes p: "p = pre @ Open # Plus cs # Close # post"
      and free: "Open \<notin> set post" "Close \<notin> set post"
      and m: "m \<in> set (finditer ic p doc)"
  shows "group1 m \<noteq> [] \<and> list_all (cmatch ic cs) (group1 m)"
proof -
  from m obtain a e s t
    where r: "rx_match ic doc p a (0, 0) = Some (e, s, t)"
      and g: "m = (a, e, take (t - s) (drop s doc))"
    unfolding finditer_def by (blast dest: finditer_from_elem)
  from r p have "rx_match ic doc (pre @ Open # Plus cs # Close # post) a (0, 0) = Some (e, s, t)"
    by simp
  from rx_match_group [OF this free] g show ?thesis by (simp add: group1_def)
qed

lemma line_pattern_identifier:
  assumes "p \<in> {rx_entry_id, rx_list_id, rx_pattern_id, rx_provider}"
      and "m \<in> set (finditer False p doc)"
  shows "is_identifier (group1 m)"
proof -
  let ?post = "[Opt quote_chars, Star Ws, Eol]"
  from assms(1) obtain pre where "p = pre @ Open # Plus id_chars # Close # ?post"
    by (auto simp: rx_entry_id_def rx_list_id_def rx_pattern_id_def rx_provider_def
        quoted_id_to_eol_def)
  from finditer_group [OF this _ _ assms(2)]
  have "group1 m \<noteq> [] \<and> list_all (cmatch False id_chars) (group1 m)" by simp
  then show ?thesis by (simp add: is_identifier_def cmatch_id_chars [abs_def])
qed

lemma plan_row_token:
  assumes "m \<in> set (finditer True rx_plan_row doc)"
  shows "group1 m \<noteq> [] \<and> list_all (\<lambda>c. id_char (lower c)) (group1 m)"
proof -
  have "rx_plan_row =
          [Lit ''|'', Star Ws, Plus (NotIn [(CHR ''|'', CHR ''|'')]), Star Ws, Lit ''|'', Star Ws]
          @ Open # Plus id_chars # Close
          # [Star Ws, Lit ''|'', Star Ws, Alt [''matched'', ''auto-applied'', ''selected'']]"
    by (simp add: rx_plan_row_def)
  from finditer_group [OF this _ _ assms]
  have "group1 m \<noteq> [] \<and> list_all (cmatch True id_chars) (group1 m)" by simp
  moreover have "cmatch True id_chars c = id_char (lower c)" for c
    by (simp add: id_chars_def id_char_def fold_case_def) (auto simp: order.antisym)
  ultimately show ?thesis by (simp add: list_all_iff)
qed

lemma inline_elements_nonempty: "x \<in> set (inline_elements g) \<Longrightarrow> x \<noteq> []"
  by (simp add: inline_elements_def)

lemma stem_nonempty: "name \<noteq> [] \<Longrightarrow> stem name \<noteq> []"
  by (auto simp: stem_def Let_def)

lemma ends_with_nonempty: "ends_with ''.yaml'' name \<Longrightarrow> name \<noteq> []"
  by (auto simp: ends_with_def)

lemma rglob_names:
  "(f, r) \<in> set (rglob accepts dir t) \<Longrightarrow> accepts (path_name f)"
  by (auto simp: rglob_def path_name_def)

section \<open>Properties of the loader\<close>

lemma py_eq_refl: "py_eq x x"
  by (auto simp: py_eq_def split: option.splits)

lemma py_eq_sym: "py_eq x y \<Longrightarrow> py_eq y x"
  by (auto simp: py_eq_def split: option.splits)

lemma py_eq_trans: "py_eq x y \<Longrightarrow> py_eq y z \<Longrightarrow> py_eq x z"
  by (auto simp: py_eq_def split: option.splits)

lemma py_in_iff: "py_in x ids \<longleftrightarrow> (\<exists>y \<in> set ids. py_eq x y)"
  by (simp add: py_in_def list_ex_iff)

lemma py_in_append: "py_in x (xs @ ys) \<longleftrightarrow> py_in x xs \<or> py_in x ys"
  by (auto simp: py_in_iff)

lemma py_in_Nil: "\<not> py_in x []"
  by (simp add: py_in_iff)

lemma py_in_Cons: "py_in x (y # ys) \<longleftrightarrow> py_eq x y \<or> py_in x ys"
  by (auto simp: py_in_iff)

lemma py_in_single: "py_in x [y] \<longleftrightarrow> py_eq x y"
  by (simp add: py_in_iff)

lemma py_in_set_insert: "py_in x (set_insert y ids) \<longleftrightarrow> py_in x ids \<or> py_eq x y"
proof (cases "py_in y ids")
  case True
  then obtain z where z: "z \<in> set ids" "py_eq y z" by (auto simp: py_in_iff)
  have "py_eq x y \<Longrightarrow> py_in x ids"
    using z by (auto simp: py_in_iff dest: py_eq_trans)
  with True show ?thesis by (auto simp: set_insert_def)
next
  case False
  then show ?thesis by (simp add: set_insert_def py_in_append py_in_single)
qed

lemma add_ids_members:
  "add_ids ps ids = Inr ids' \<Longrightarrow>
     py_in x ids' \<longleftrightarrow> py_in x ids \<or> py_in x (concat (map entry_id ps))"
proof (induction ps arbitrary: ids)
  case Nil
  then show ?case by (simp add: py_in_Nil)
next
  case (Cons p ps)
  from Cons.prems obtain kvs where p: "p = JObj kvs"
    by (cases p) (simp_all split: sum.splits)
  define pid where "pid = (case map_of kvs ''id'' of Some v \<Rightarrow> v | None \<Rightarrow> JNull)"
  show ?case
  proof (cases "truthy pid")
    case True
    with Cons.prems p have rest: "add_ids ps (set_insert pid ids) = Inr ids'"
      by (simp add: pid_def set_add_def split: sum.splits if_splits)
    from True have "entry_id p = [pid]"
      by (auto simp: entry_id_def p pid_def split: option.splits)
    with Cons.IH [OF rest] show ?thesis
      by (auto simp: py_in_set_insert py_in_Cons)
  next
    case False
    with Cons.prems p have rest: "add_ids ps ids = Inr ids'"
      by (simp add: pid_def)
    from False have "entry_id p = []"
      by (auto simp: entry_id_def p pid_def split: option.splits)
    with Cons.IH [OF rest] show ?thesis by simp
  qed
qed

lemma add_ids_raises:
  "add_ids ps ids = Inl (e, ids') \<Longrightarrow> e = AttributeError \<or> e = TypeError"
proof (induction ps arbitrary: ids)
  case Nil
  then show ?case by simp
next
  case (Cons p ps)
  show ?case
  proof (cases p)
    case (JObj kvs)
    with Cons show ?thesis
      by (auto simp: set_add_def split: if_splits sum.splits)
  qed (use Cons.prems in simp_all)
qed

lemma iter_add_ids_members:
  assumes "py_iter ps = Inr items" and "add_ids items ids = Inr ids'"
  shows "py_in x ids' \<longleftrightarrow> py_in x ids \<or> py_in x (entry_ids ps)"
proof (cases ps)
  case (JArr xs)
  with assms add_ids_members [of items ids ids' x] show ?thesis by simp
next
  case (JObj kvs)
  with assms have "kvs = []" by (cases kvs) auto
  with JObj assms show ?thesis by (simp add: py_in_Nil)
next
  case (JStr s)
  with assms have "s = []" by (cases s) auto
  with JStr assms show ?thesis by (simp add: py_in_Nil)
qed (use assms in simp_all)

lemma category_patterns:
  "(case category of JObj kvs \<Rightarrow> dict_get category ''patterns'' (JArr []) | _ \<Rightarrow> Inr (JArr []))
     = Inr (case field category ''patterns'' of Some ps \<Rightarrow> ps | None \<Rightarrow> JArr [])"
  by (cases category) simp_all

lemma add_categories_members:
  "add_categories cats ids = Inr ids' \<Longrightarrow>
     py_in x ids' \<longleftrightarrow> py_in x ids \<or> py_in x (concat (map group_ids cats))"
proof (induction cats arbitrary: ids)
  case Nil
  then show ?case by (simp add: py_in_Nil)
next
  case (Cons c cats)
  define ps where "ps = (case field c ''patterns'' of Some ps \<Rightarrow> ps | None \<Rightarrow> JArr [])"
  from Cons.prems obtain items ids1
    where it: "py_iter ps = Inr items"
      and a1: "add_ids items ids = Inr ids1"
      and rest: "add_categories cats ids1 = Inr ids'"
    by (auto simp: category_patterns ps_def split: sum.splits)
  have "group_ids c = entry_ids ps"
    by (simp add: group_ids_def ps_def split: option.splits)
  with iter_add_ids_members [OF it a1, of x] Cons.IH [OF rest] show ?case
    by (auto simp: py_in_append)
qed

lemma add_categories_raises:
  "add_categories cats ids = Inl (e, ids') \<Longrightarrow> e = AttributeError \<or> e = TypeError"
proof (induction cats arbitrary: ids)
  case Nil
  then show ?case by simp
next
  case (Cons c cats)
  define ps where "ps = (case field c ''patterns'' of Some ps \<Rightarrow> ps | None \<Rightarrow> JArr [])"
  show ?case
  proof (cases "py_iter ps")
    case (Inl err)
    then have "err = TypeError" by (cases ps) simp_all
    with Inl Cons.prems show ?thesis by (simp add: category_patterns ps_def)
  next
    case (Inr items)
    show ?thesis
    proof (cases "add_ids items ids")
      case (Inl x)
      with Inr Cons.prems have "x = (e, ids')" by (simp add: category_patterns ps_def)
      with Inl add_ids_raises show ?thesis by blast
    next
      case (Inr ids1)
      with \<open>py_iter ps = Inr items\<close> Cons.prems have "add_categories cats ids1 = Inl (e, ids')"
        by (simp add: category_patterns ps_def)
      from Cons.IH [OF this] show ?thesis .
    qed
  qed
qed

lemma dict_get_field:
  "dict_get data key dflt = Inr v \<Longrightarrow> v = (case field data key of Some u \<Rightarrow> u | None \<Rightarrow> dflt)"
  by (cases data) simp_all

lemma index_body_members:
  assumes "index_body data [] = Inr ids"
  shows "py_in x ids \<longleftrightarrow> py_in x (index_top_ids (Json data)) \<or> py_in x (index_category_ids (Json data))"
proof -
  define ps where "ps = (case field data ''patterns'' of Some u \<Rightarrow> u | None \<Rightarrow> JArr [])"
  define c where "c = (case field data ''categories'' of Some u \<Rightarrow> u | None \<Rightarrow> JNull)"
  from assms obtain ps' items ids1 c' cats
    where g1: "dict_get data ''patterns'' (JArr []) = Inr ps'"
      and it: "py_iter ps' = Inr items"
      and a1: "add_ids items [] = Inr ids1"
      and g2: "dict_get data ''categories'' JNull = Inr c'"
      and vs: "dict_values (if truthy c' then c' else JObj []) = Inr cats"
      and a2: "add_categories cats ids1 = Inr ids"
    by (auto simp: index_body_def split: sum.splits)
  from dict_get_field [OF g1] have ps': "ps' = ps" by (simp add: ps_def)
  from dict_get_field [OF g2] have c': "c' = c" by (simp add: c_def)
  have top: "index_top_ids (Json data) = entry_ids ps"
    by (simp add: index_top_ids_def group_ids_def ps_def split: option.splits)
  have cat: "py_in x (concat (map group_ids cats)) \<longleftrightarrow> py_in x (index_category_ids (Json data))"
  proof (cases "truthy c")
    case True
    with vs c' obtain groups where groups: "c = JObj groups" "cats = map snd groups"
      by (cases c) auto
    then have "field data ''categories'' = Some (JObj groups)"
      by (auto simp: c_def split: option.splits)
    with groups show ?thesis by (simp add: index_category_ids_def comp_def)
  next
    case False
    with vs c' have "cats = []" by simp
    moreover from False have "index_category_ids (Json data) = []"
      by (cases "field data ''categories''")
         (auto simp: index_category_ids_def c_def split: json.splits)
    ultimately show ?thesis by simp
  qed
  from iter_add_ids_members [OF it [unfolded ps'] a1, of x] add_categories_members [OF a2, of x] top cat
  show ?thesis by (auto simp: py_in_Nil)
qed

lemma index_body_raises:
  assumes "index_body data ids = Inl (e, ids')"
  shows "e = AttributeError \<or> e = TypeError"
proof -
  have g: "dict_get d k v = Inl err \<Longrightarrow> err = AttributeError" for d k v err
    by (cases d) simp_all
  have i: "py_iter d = Inl err \<Longrightarrow> err = TypeError" for d err
    by (cases d) simp_all
  have v: "dict_values d = Inl err \<Longrightarrow> err = AttributeError" for d err
    by (cases d) simp_all
  from assms show ?thesis
    unfolding index_body_def
    by (auto split: sum.splits dest: g i v add_ids_raises add_categories_raises)
qed

lemma load_index_members:
  assumes "load_index idx index_path [] = Inr (ids, w)"
  shows "py_in x ids \<longleftrightarrow> py_in x (index_top_ids idx) \<or> py_in x (index_category_ids idx)"
proof (cases idx)
  case NoIndex
  with assms show ?thesis
    by (simp add: load_index_def index_top_ids_def index_category_ids_def py_in_Nil)
next
  case (ReadFails e)
  with assms show ?thesis
    by (auto simp: load_index_def index_top_ids_def index_category_ids_def py_in_Nil
        split: if_splits)
next
  case NotJson
  with assms show ?thesis
    by (simp add: load_index_def index_top_ids_def index_category_ids_def py_in_Nil)
next
  case (Json data)
  show ?thesis
  proof (cases "index_body data []")
    case (Inl x)
    obtain e ids' where "x = (e, ids')" by (cases x)
    with Inl index_body_raises have "e = AttributeError \<or> e = TypeError" by blast
    with Inl \<open>x = (e, ids')\<close> Json assms show ?thesis by (auto simp: load_index_def)
  next
    case (Inr ids')
    with Json assms have "ids' = ids" by (simp add: load_index_def)
    with Inr index_body_members Json show ?thesis by simp
  qed
qed

lemma add_entry_files_members:
  "py_in x (add_entry_files files ids) \<longleftrightarrow>
     py_in x ids
     \<or> py_in x (map (\<lambda>(f, r). JStr (stem (path_name f))) files)
     \<or> py_in x (concat (map (\<lambda>(f, r). declared_id r) files))"
proof (induction files arbitrary: ids)
  case Nil
  then show ?case by (simp add: py_in_Nil)
next
  case (Cons d files)
  obtain f r where d: "d = (f, r)" by (cases d)
  define ids1 where "ids1 = set_insert (JStr (stem (path_name f))) ids"
  define ids2 where "ids2 = (case r of
                    Unreadable e \<Rightarrow> ids1
                  | Content content \<Rightarrow>
                      (case re_search False rx_entry_id content of
                         None \<Rightarrow> ids1
                       | Some m \<Rightarrow> set_insert (JStr (group1 m)) ids1))"
  have step: "add_entry_files (d # files) ids = add_entry_files files ids2"
    unfolding ids1_def ids2_def by (simp add: d Let_def)
  have two: "py_in x ids2 \<longleftrightarrow> py_in x ids1 \<or> py_in x (declared_id r)"
    by (auto simp: ids2_def declared_id_def py_in_Nil py_in_single py_in_set_insert
        split: read_result.splits option.splits)
  have one: "py_in x ids1 \<longleftrightarrow> py_in x ids \<or> py_eq x (JStr (stem (path_name f)))"
    by (simp add: ids1_def py_in_set_insert)
  show ?case
    unfolding step Cons.IH [of ids2] two one
    by (auto simp: d py_in_Cons py_in_append)
qed

lemma rglob_entry_files:
  "rglob (ends_with ''.yaml'') dir (patterns_tree fs) = map (\<lambda>(rel, r). (dir @ rel, r)) (entry_files fs)"
  by (simp add: rglob_def entry_files_def)

lemma entry_files_rel: "(rel, r) \<in> set (entry_files fs) \<Longrightarrow> rel \<noteq> [] \<and> ends_with ''.yaml'' (path_name rel)"
  by (auto simp: entry_files_def)

lemma path_name_append: "rel \<noteq> [] \<Longrightarrow> path_name (dir @ rel) = path_name rel"
  by (simp add: path_name_def)

lemma entry_files_stems:
  "map (\<lambda>(f, r). JStr (stem (path_name f))) (map (\<lambda>(rel, r). (dir @ rel, r)) (entry_files fs))
     = base_name_ids fs"
  unfolding base_name_ids_def map_map
  by (rule map_cong) (auto dest: entry_files_rel simp: path_name_append)

lemma entry_files_declared:
  "concat (map (\<lambda>(f, r). declared_id r) (map (\<lambda>(rel, r). (dir @ rel, r)) (entry_files fs)))
     = declared_ids fs"
  unfolding declared_ids_def map_map
  by (rule arg_cong [where f = concat], rule map_cong) auto

lemma load_valid_members:
  assumes "load_valid_pattern_ids fs dir = Inr (ids, w)"
  shows "py_in x ids \<longleftrightarrow>
           py_in x (index_top_ids (index_json fs)) \<or> py_in x (index_category_ids (index_json fs))
           \<or> py_in x (base_name_ids fs) \<or> py_in x (declared_ids fs)"
proof -
  from assms obtain ids0
    where idx: "load_index (index_json fs) (dir @ [''index.json'']) [] = Inr (ids0, w)"
      and ids: "ids = add_entry_files
                        (rglob (ends_with ''.yaml'') (dir @ [''patterns'']) (patterns_tree fs)) ids0"
    by (auto simp: load_valid_pattern_ids_def split: sum.splits)
  show ?thesis
    unfolding ids add_entry_files_members rglob_entry_files entry_files_stems entry_files_declared
      load_index_members [OF idx]
    by blast
qed

lemma add_ids_returns:
  "list_all entry_ok ps \<Longrightarrow> \<exists>ids'. add_ids ps ids = Inr ids'"
proof (induction ps arbitrary: ids)
  case Nil
  then show ?case by simp
next
  case (Cons p ps)
  from Cons.prems obtain kvs where p: "p = JObj kvs"
    and h: "case map_of kvs ''id'' of None \<Rightarrow> True | Some pid \<Rightarrow> hashable pid"
    by (cases p) (auto simp: entry_ok_def)
  from Cons.prems have "list_all entry_ok ps" by simp
  from Cons.IH [OF this] h show ?case
    by (auto simp: p set_add_def split: option.splits)
qed

lemma group_returns:
  assumes "group_ok grp"
  shows "\<exists>items ids'. py_iter (case field grp ''patterns'' of Some ps \<Rightarrow> ps | None \<Rightarrow> JArr []) = Inr items
           \<and> add_ids items ids = Inr ids'"
proof -
  from assms obtain kvs where g: "grp = JObj kvs" by (cases grp) (auto simp: group_ok_def)
  show ?thesis
  proof (cases "map_of kvs ''patterns''")
    case None
    with g show ?thesis by simp
  next
    case (Some ps)
    with assms g obtain xs where "ps = JArr xs" "list_all entry_ok xs"
      by (cases ps) (auto simp: group_ok_def)
    with Some g add_ids_returns [of xs ids] show ?thesis by auto
  qed
qed

lemma add_categories_returns:
  "list_all group_ok cats \<Longrightarrow> \<exists>ids'. add_categories cats ids = Inr ids'"
proof (induction cats arbitrary: ids)
  case Nil
  then show ?case by simp
next
  case (Cons c cats)
  from Cons.prems have c: "group_ok c" and cs: "list_all group_ok cats" by simp_all
  from group_returns [OF c, of ids] obtain items ids1
    where "py_iter (case field c ''patterns'' of Some ps \<Rightarrow> ps | None \<Rightarrow> JArr []) = Inr items"
      "add_ids items ids = Inr ids1" by blast
  with Cons.IH [OF cs, of ids1] show ?case
    by (auto simp: category_patterns)
qed

lemma index_body_returns:
  assumes "index_ok data"
  shows "\<exists>ids'. index_body data ids = Inr ids'"
proof -
  from assms have g: "group_ok data" by (simp add: index_ok_def)
  then obtain kvs where d: "data = JObj kvs" by (cases data) (auto simp: group_ok_def)
  from group_returns [OF g, of ids] obtain items ids1
    where it: "py_iter (case field data ''patterns'' of Some ps \<Rightarrow> ps | None \<Rightarrow> JArr []) = Inr items"
      and a1: "add_ids items ids = Inr ids1" by blast
  define c where "c = (case map_of kvs ''categories'' of Some u \<Rightarrow> u | None \<Rightarrow> JNull)"
  have "\<exists>cats. dict_values (if truthy c then c else JObj []) = Inr cats \<and> list_all group_ok cats"
  proof (cases "map_of kvs ''categories''")
    case None
    then show ?thesis by (simp add: c_def)
  next
    case (Some u)
    with assms d obtain groups where "u = JObj groups" "list_all (\<lambda>kv. group_ok (snd kv)) groups"
      by (cases u) (auto simp: index_ok_def)
    with Some show ?thesis by (auto simp: c_def list_all_iff)
  qed
  then obtain cats where vs: "dict_values (if truthy c then c else JObj []) = Inr cats"
    and ok: "list_all group_ok cats" by blast
  from add_categories_returns [OF ok, of ids1] obtain ids' where "add_categories cats ids1 = Inr ids'"
    by blast
  with it a1 vs show ?thesis
    by (auto simp: index_body_def d c_def)
qed

lemma load_valid_returns:
  assumes "index_loads (index_json fs)"
  shows "\<exists>ids w. load_valid_pattern_ids fs dir = Inr (ids, w)"
proof (cases "index_json fs")
  case NoIndex
  then show ?thesis by (simp add: load_valid_pattern_ids_def load_index_def)
next
  case (ReadFails e)
  with assms show ?thesis by (simp add: index_loads_def)
next
  case NotJson
  then show ?thesis by (simp add: load_valid_pattern_ids_def load_index_def)
next
  case (Json data)
  with assms have "index_ok data" by (simp add: index_loads_def)
  from index_body_returns [OF this, of "[]"] obtain ids' where "index_body data [] = Inr ids'" by blast
  with Json show ?thesis by (simp add: load_valid_pattern_ids_def load_index_def)
qed

lemma unparsable_index_degrades:
  "index_json fs = NotJson \<Longrightarrow>
     load_valid_pattern_ids fs dir =
       Inr (add_entry_files (rglob (ends_with ''.yaml'') (dir @ [''patterns'']) (patterns_tree fs)) [],
            [WarnParse (dir @ [''index.json''])])"
  by (simp add: load_valid_pattern_ids_def load_index_def)

text \<open>
  Claim C4. When the loader returns, the valid set is the union of the four sources: a value
  is a member exactly when the top-level list of the index, the category groups of the
  index, the base names of the entry files or the declared identifiers of the entry files
  hold it (up to Python's equality, and for strings as plain membership); both index
  shapes count in one run, and the base name of every entry file is a member whether or
  not the file can be read. The loader does return when the index is absent, is not JSON,
  or has the shape the interface describes.
\<close>

theorem valid_ids_union_of_sources:
  "(load_valid_pattern_ids fs dir = Inr (ids, w) \<longrightarrow>
      (\<forall>x. py_in x ids \<longleftrightarrow>
             py_in x (index_top_ids (index_json fs)) \<or> py_in x (index_category_ids (index_json fs))
             \<or> py_in x (base_name_ids fs) \<or> py_in x (declared_ids fs))
      \<and> (\<forall>s. JStr s \<in> set ids \<longleftrightarrow>
             JStr s \<in> set (index_top_ids (index_json fs)) \<union> set (index_category_ids (index_json fs))
                      \<union> set (base_name_ids fs) \<union> set (declared_ids fs))
      \<and> set (base_name_ids fs) \<subseteq> set ids)
   \<and> (index_loads (index_json fs) \<longrightarrow> (\<exists>ids w. load_valid_pattern_ids fs dir = Inr (ids, w)))"
proof (intro conjI impI allI)
  assume l: "load_valid_pattern_ids fs dir = Inr (ids, w)"
  show "py_in x ids \<longleftrightarrow>
             py_in x (index_top_ids (index_json fs)) \<or> py_in x (index_category_ids (index_json fs))
             \<or> py_in x (base_name_ids fs) \<or> py_in x (declared_ids fs)" for x
    by (rule load_valid_members [OF l])
  show str: "JStr s \<in> set ids \<longleftrightarrow>
             JStr s \<in> set (index_top_ids (index_json fs)) \<union> set (index_category_ids (index_json fs))
                      \<union> set (base_name_ids fs) \<union> set (declared_ids fs)" for s
    using load_valid_members [OF l, of "JStr s"] by (simp add: py_in_str)
  show "set (base_name_ids fs) \<subseteq> set ids"
  proof
    fix x assume x: "x \<in> set (base_name_ids fs)"
    then obtain s where "x = JStr s" by (auto simp: base_name_ids_def)
    with x str [of s] show "x \<in> set ids" by simp
  qed
next
  assume "index_loads (index_json fs)"
  then show "\<exists>ids w. load_valid_pattern_ids fs dir = Inr (ids, w)" by (rule load_valid_returns)
qed

lemma demo_catalog_loads:
  "load_valid_pattern_ids demo_catalog [''catalog''] =
     Inr ([JStr ''top-one'', JStr ''legacy-one'', JStr ''file-one'', JStr ''declared-one'', JStr ''broken''], [])"
  by code_simp

theorem valid_ids_union_of_sources_witness:
  "load_valid_pattern_ids demo_catalog [''catalog''] =
     Inr ([JStr ''top-one'', JStr ''legacy-one'', JStr ''file-one'', JStr ''declared-one'', JStr ''broken''], [])
   \<and> index_loads (index_json demo_catalog)
   \<and> base_name_ids demo_catalog = [JStr ''file-one'', JStr ''broken'']
   \<and> set (base_name_ids demo_catalog)
       \<subseteq> set [JStr ''top-one'', JStr ''legacy-one'', JStr ''file-one'', JStr ''declared-one'', JStr ''broken'']"
proof -
  have b: "base_name_ids demo_catalog = [JStr ''file-one'', JStr ''broken'']" by code_simp
  have i: "index_loads (index_json demo_catalog)" by code_simp
  from valid_ids_union_of_sources [of demo_catalog "[''catalog'']" _ "[]"] demo_catalog_loads
  have "set (base_name_ids demo_catalog)
       \<subseteq> set [JStr ''top-one'', JStr ''legacy-one'', JStr ''file-one'', JStr ''declared-one'', JStr ''broken'']"
    by blast
  with b i demo_catalog_loads show ?thesis by blast
qed

text \<open>
  Claim C3. The claim says that no content of the index file makes the loader raise. On
  an index file that holds the JSON array \<^verbatim>\<open>[]\<close> the call \<^verbatim>\<open>data.get\<close> raises
  \<^verbatim>\<open>AttributeError\<close>, which \<^verbatim>\<open>except (json.JSONDecodeError, KeyError)\<close> does not
  catch: the loader raises, nothing is reported, and the entry file beside the index is
  never scanned.
\<close>

theorem array_index_raises:
  "load_valid_pattern_ids array_index_catalog [''proj'', ''catalog''] = Inl AttributeError
   \<and> main False [''proj''] array_index_catalog
       = \<lparr> stdout = [], stderr = [Traceback AttributeError], exit_code = 1 \<rparr>"
  by (simp add: main_def load_valid_pattern_ids_def load_index_def index_body_def
      array_index_catalog_def)

section \<open>Properties of the identifiers\<close>

lemma truthy_py_eq: "py_eq x y \<Longrightarrow> truthy x = truthy y"
  by (cases x; cases y) (auto simp: py_eq_def split: if_splits)

lemma entry_ids_truthy: "y \<in> set (entry_ids ps) \<Longrightarrow> truthy y"
  by (cases ps) (auto simp: entry_id_def split: option.splits if_splits)

lemma group_ids_truthy: "y \<in> set (group_ids grp) \<Longrightarrow> truthy y"
  by (auto simp: group_ids_def split: option.splits dest: entry_ids_truthy)

lemma index_top_ids_truthy: "y \<in> set (index_top_ids idx) \<Longrightarrow> truthy y"
  by (cases idx) (auto simp: index_top_ids_def dest: group_ids_truthy)

lemma index_category_ids_truthy: "y \<in> set (index_category_ids idx) \<Longrightarrow> truthy y"
proof (cases idx)
  case (Json data)
  assume y: "y \<in> set (index_category_ids idx)"
  show ?thesis
  proof (cases "field data ''categories''")
    case None
    with Json y show ?thesis by (simp add: index_category_ids_def)
  next
    case (Some u)
    with Json y show ?thesis
      by (cases u) (auto simp: index_category_ids_def dest: group_ids_truthy)
  qed
qed (simp_all add: index_category_ids_def)

lemma base_name_ids_nonempty:
  assumes "y \<in> set (base_name_ids fs)"
  shows "\<exists>s. y = JStr s \<and> s \<noteq> []"
proof -
  from assms obtain d where d: "d \<in> set (entry_files fs)"
    and y: "y = (case d of (rel, r) \<Rightarrow> JStr (stem (path_name rel)))"
    by (auto simp: base_name_ids_def)
  obtain rel r where "d = (rel, r)" by (cases d)
  with d y entry_files_rel [of rel r fs] have "y = JStr (stem (path_name rel))"
    "ends_with ''.yaml'' (path_name rel)" by simp_all
  then show ?thesis using stem_nonempty ends_with_nonempty by blast
qed

lemma re_search_in_finditer: "re_search ic p doc = Some m \<Longrightarrow> m \<in> set (finditer ic p doc)"
  by (auto simp: re_search_def split: list.splits)

lemma declared_ids_identifier:
  assumes "y \<in> set (declared_ids fs)"
  shows "\<exists>s. y = JStr s \<and> is_identifier s"
proof -
  from assms obtain d where "d \<in> set (entry_files fs)"
    and y: "y \<in> set (case d of (rel, r) \<Rightarrow> declared_id r)"
    by (auto simp: declared_ids_def)
  obtain rel r where "d = (rel, r)" by (cases d)
  with y have y: "y \<in> set (declared_id r)" by simp
  then obtain c where c: "r = Content c" by (cases r) (simp_all add: declared_id_def)
  with y obtain m where m: "re_search False rx_entry_id c = Some m" and ym: "y = JStr (group1 m)"
    by (cases "re_search False rx_entry_id c") (simp_all add: declared_id_def)
  from re_search_in_finditer [OF m] have "m \<in> set (finditer False rx_entry_id c)" .
  with line_pattern_identifier [of rx_entry_id m c] ym show ?thesis by simp
qed

lemma valid_ids_truthy:
  assumes "load_valid_pattern_ids fs dir = Inr (ids, w)" and "x \<in> set ids"
  shows "truthy x"
proof -
  from assms(2) have "py_in x ids" by (auto simp: py_in_iff intro: py_eq_refl)
  with load_valid_members [OF assms(1), of x] obtain y
    where y: "py_eq x y"
      and src: "y \<in> set (index_top_ids (index_json fs)) \<union> set (index_category_ids (index_json fs))
                \<or> y \<in> set (base_name_ids fs) \<or> y \<in> set (declared_ids fs)"
    by (auto simp: py_in_iff)
  from src have "truthy y"
    by (auto dest: index_top_ids_truthy index_category_ids_truthy base_name_ids_nonempty
        declared_ids_identifier simp: is_identifier_def)
  with truthy_py_eq [OF y] show ?thesis by simp
qed

lemma in_concat_map: "x \<in> set (concat (map F xs)) \<Longrightarrow> \<exists>d \<in> set xs. x \<in> set (F d)"
  by auto

lemma manifest_refs_shape:
  assumes "r \<in> set (fst (collect_used_pattern_ids_from_manifests fs dir))"
  shows "is_identifier (snd r)
         \<or> (\<exists>c m. (fst r, Content c) \<in> set (rglob (ends_with ''.yaml'') dir (manifests_tree fs))
                \<and> m \<in> set (finditer False rx_from_catalog c)
                \<and> snd r \<in> set (inline_elements (group1 m)))"
proof -
  from assms have "r \<in> set (concat (map (\<lambda>(f, rr). case rr of
                     Unreadable e \<Rightarrow> []
                   | Content c \<Rightarrow>
                       map (\<lambda>m. (f, group1 m)) (finditer False rx_list_id c)
                       @ map (\<lambda>m. (f, group1 m)) (finditer False rx_pattern_id c)
                       @ map (\<lambda>m. (f, group1 m)) (finditer False rx_provider c)
                       @ concat (map (\<lambda>m. map (Pair f) (inline_elements (group1 m)))
                                   (finditer False rx_from_catalog c)))
                (rglob (ends_with ''.yaml'') dir (manifests_tree fs))))"
    unfolding collect_used_pattern_ids_from_manifests_def manifests_loop_refs by simp
  from in_concat_map [OF this] obtain d
    where d: "d \<in> set (rglob (ends_with ''.yaml'') dir (manifests_tree fs))"
      and rd: "r \<in> set (case d of (f, rr) \<Rightarrow> case rr of
                     Unreadable e \<Rightarrow> []
                   | Content c \<Rightarrow>
                       map (\<lambda>m. (f, group1 m)) (finditer False rx_list_id c)
                       @ map (\<lambda>m. (f, group1 m)) (finditer False rx_pattern_id c)
                       @ map (\<lambda>m. (f, group1 m)) (finditer False rx_provider c)
                       @ concat (map (\<lambda>m. map (Pair f) (inline_elements (group1 m)))
                                   (finditer False rx_from_catalog c)))"
    by blast
  obtain f rr where "d = (f, rr)" by (cases d)
  with d rd have doc: "(f, rr) \<in> set (rglob (ends_with ''.yaml'') dir (manifests_tree fs))"
      and r: "r \<in> set (case rr of
                     Unreadable e \<Rightarrow> []
                   | Content c \<Rightarrow>
                       map (\<lambda>m. (f, group1 m)) (finditer False rx_list_id c)
                       @ map (\<lambda>m. (f, group1 m)) (finditer False rx_pattern_id c)
                       @ map (\<lambda>m. (f, group1 m)) (finditer False rx_provider c)
                       @ concat (map (\<lambda>m. map (Pair f) (inline_elements (group1 m)))
                                   (finditer False rx_from_catalog c)))"
    by simp_all
  from r obtain c where c: "rr = Content c" by (cases rr) auto
  from r [unfolded c] consider
      m where "m \<in> set (finditer False rx_list_id c)" "r = (f, group1 m)"
    | m where "m \<in> set (finditer False rx_pattern_id c)" "r = (f, group1 m)"
    | m where "m \<in> set (finditer False rx_provider c)" "r = (f, group1 m)"
    | m where "m \<in> set (finditer False rx_from_catalog c)" "fst r = f"
        "snd r \<in> set (inline_elements (group1 m))"
    by auto
  then show ?thesis
  proof cases
    case 1
    with line_pattern_identifier [of rx_list_id m c] show ?thesis by simp
  next
    case 2
    with line_pattern_identifier [of rx_pattern_id m c] show ?thesis by simp
  next
    case 3
    with line_pattern_identifier [of rx_provider m c] show ?thesis by simp
  next
    case 4
    with doc c have "(fst r, Content c) \<in> set (rglob (ends_with ''.yaml'') dir (manifests_tree fs))"
      by simp
    with 4 show ?thesis by blast
  qed
qed

lemma plan_refs_shape:
  assumes "r \<in> set (fst (collect_used_pattern_ids_from_plans fs dir))"
  shows "\<exists>c m. (fst r, Content c) \<in> set (rglob (\<lambda>name. name = ''plan.md'') dir (specs_tree fs))
               \<and> m \<in> set (finditer True rx_plan_row c) \<and> snd r = group1 m"
proof -
  from assms have "r \<in> set (concat (map (\<lambda>(f, rr). case rr of
                     Unreadable e \<Rightarrow> []
                   | Content c \<Rightarrow> map (\<lambda>m. (f, group1 m)) (finditer True rx_plan_row c))
                (rglob (\<lambda>name. name = ''plan.md'') dir (specs_tree fs))))"
    unfolding collect_used_pattern_ids_from_plans_def plans_loop_refs by simp
  from in_concat_map [OF this] obtain d
    where d: "d \<in> set (rglob (\<lambda>name. name = ''plan.md'') dir (specs_tree fs))"
      and rd: "r \<in> set (case d of (f, rr) \<Rightarrow> case rr of
                     Unreadable e \<Rightarrow> []
                   | Content c \<Rightarrow> map (\<lambda>m. (f, group1 m)) (finditer True rx_plan_row c))"
    by blast
  obtain f rr where "d = (f, rr)" by (cases d)
  with d rd have doc: "(f, rr) \<in> set (rglob (\<lambda>name. name = ''plan.md'') dir (specs_tree fs))"
      and r: "r \<in> set (case rr of
                     Unreadable e \<Rightarrow> []
                   | Content c \<Rightarrow> map (\<lambda>m. (f, group1 m)) (finditer True rx_plan_row c))"
    by simp_all
  from r obtain c where c: "rr = Content c" by (cases rr) auto
  with r obtain m where m: "m \<in> set (finditer True rx_plan_row c)" and rm: "r = (f, group1 m)"
    by auto
  from doc c rm have "(fst r, Content c) \<in> set (rglob (\<lambda>name. name = ''plan.md'') dir (specs_tree fs))"
    "snd r = group1 m" by simp_all
  with m show ?thesis by blast
qed

text \<open>
  Claim C10. No empty identifier enters the run. When the loader returns, the empty string
  and \<^verbatim>\<open>None\<close> are not members of the valid set (every member is a true value: an
  index entry whose identifier is missing or empty is skipped); every reference collected
  from the manifests and from the plans carries an identifier that is not empty (an
  inline element that is empty after stripping is dropped).
\<close>

theorem no_empty_identifier:
  "(load_valid_pattern_ids fs cdir = Inr (ids, w) \<longrightarrow>
      JStr [] \<notin> set ids \<and> JNull \<notin> set ids \<and> (\<forall>x \<in> set ids. truthy x))
   \<and> (\<forall>r \<in> set (fst (collect_used_pattern_ids_from_manifests fs mdir)). snd r \<noteq> [])
   \<and> (\<forall>r \<in> set (fst (collect_used_pattern_ids_from_plans fs sdir)). snd r \<noteq> [])"
proof (intro conjI impI ballI)
  assume l: "load_valid_pattern_ids fs cdir = Inr (ids, w)"
  show "JStr [] \<notin> set ids" using valid_ids_truthy [OF l, of "JStr []"] by auto
  show "JNull \<notin> set ids" using valid_ids_truthy [OF l, of JNull] by auto
  show "truthy x" if "x \<in> set ids" for x using valid_ids_truthy [OF l that] .
next
  fix r assume "r \<in> set (fst (collect_used_pattern_ids_from_manifests fs mdir))"
  from manifest_refs_shape [OF this] show "snd r \<noteq> []"
    by (auto simp: is_identifier_def dest: inline_elements_nonempty)
next
  fix r assume "r \<in> set (fst (collect_used_pattern_ids_from_plans fs sdir))"
  from plan_refs_shape [OF this] obtain c m
    where "m \<in> set (finditer True rx_plan_row c)" "snd r = group1 m" by blast
  with plan_row_token [of m c] show "snd r \<noteq> []" by simp
qed

lemma demo_catalog_refs:
  "fst (collect_used_pattern_ids_from_manifests demo_catalog [''manifests''])
     = [([''manifests'', ''m.yaml''], ''a'')]"
  by code_simp

theorem no_empty_identifier_witness:
  "load_valid_pattern_ids demo_catalog [''catalog''] =
     Inr ([JStr ''top-one'', JStr ''legacy-one'', JStr ''file-one'', JStr ''declared-one'', JStr ''broken''], [])
   \<and> JStr [] \<notin> set [JStr ''top-one'', JStr ''legacy-one'', JStr ''file-one'', JStr ''declared-one'',
                      JStr ''broken'']
   \<and> fst (collect_used_pattern_ids_from_manifests demo_catalog [''manifests''])
       = [([''manifests'', ''m.yaml''], ''a'')]"
  using no_empty_identifier [of demo_catalog "[''catalog'']" _ "[]" "[''manifests'']" "[]"]
    demo_catalog_loads demo_catalog_refs
  by blast

text \<open>
  Claim C6, as amended. The identifiers the four line patterns capture (the \<^verbatim>\<open>id:\<close>
  line of an entry file, and the \<^verbatim>\<open>- id:\<close>, \<^verbatim>\<open>pattern_id:\<close> and \<^verbatim>\<open>provider:\<close> lines
  of a manifest) match the lexical rule. So a string of the valid set matches the rule
  unless it is an identifier field of the index or the base name of an entry file, and a
  reference from a manifest matches the rule unless it is an element of an inline
  \<^verbatim>\<open>from_catalog\<close> list; those are taken as they stand.
\<close>

theorem captured_ids_match_rule:
  "(p \<in> {rx_entry_id, rx_list_id, rx_pattern_id, rx_provider} \<and> m \<in> set (finditer False p doc)
      \<longrightarrow> is_identifier (group1 m))
   \<and> (load_valid_pattern_ids fs cdir = Inr (ids, w) \<and> JStr s \<in> set ids
      \<longrightarrow> is_identifier s
          \<or> JStr s \<in> set (index_top_ids (index_json fs)) \<union> set (index_category_ids (index_json fs))
                     \<union> set (base_name_ids fs))
   \<and> (r \<in> set (fst (collect_used_pattern_ids_from_manifests fs mdir))
      \<longrightarrow> is_identifier (snd r)
          \<or> (\<exists>c m. (fst r, Content c) \<in> set (rglob (ends_with ''.yaml'') mdir (manifests_tree fs))
                 \<and> m \<in> set (finditer False rx_from_catalog c)
                 \<and> snd r \<in> set (inline_elements (group1 m))))"
proof (intro conjI impI)
  assume "p \<in> {rx_entry_id, rx_list_id, rx_pattern_id, rx_provider} \<and> m \<in> set (finditer False p doc)"
  then show "is_identifier (group1 m)" using line_pattern_identifier by blast
next
  assume a: "load_valid_pattern_ids fs cdir = Inr (ids, w) \<and> JStr s \<in> set ids"
  then have "py_in (JStr s) ids" by (simp add: py_in_str)
  with load_valid_members [of fs cdir ids w "JStr s"] a
  have "JStr s \<in> set (index_top_ids (index_json fs)) \<union> set (index_category_ids (index_json fs))
                     \<union> set (base_name_ids fs) \<or> JStr s \<in> set (declared_ids fs)"
    by (auto simp: py_in_str)
  then show "is_identifier s
          \<or> JStr s \<in> set (index_top_ids (index_json fs)) \<union> set (index_category_ids (index_json fs))
                     \<union> set (base_name_ids fs)"
    using declared_ids_identifier [of "JStr s" fs] by auto
next
  assume "r \<in> set (fst (collect_used_pattern_ids_from_manifests fs mdir))"
  then show "is_identifier (snd r)
          \<or> (\<exists>c m. (fst r, Content c) \<in> set (rglob (ends_with ''.yaml'') mdir (manifests_tree fs))
                 \<and> m \<in> set (finditer False rx_from_catalog c)
                 \<and> snd r \<in> set (inline_elements (group1 m)))"
    by (rule manifest_refs_shape)
qed

theorem captured_ids_match_rule_witness:
  "is_identifier ''declared-one'' \<and> \<not> is_identifier ''file_one''
   \<and> JStr ''declared-one'' \<notin> set (index_top_ids (index_json demo_catalog))
                               \<union> set (index_category_ids (index_json demo_catalog))
                               \<union> set (base_name_ids demo_catalog)"
proof -
  have n: "JStr ''declared-one'' \<notin> set (index_top_ids (index_json demo_catalog))
                               \<union> set (index_category_ids (index_json demo_catalog))
                               \<union> set (base_name_ids demo_catalog)"
    by code_simp
  have "JStr ''declared-one'' \<in> set [JStr ''top-one'', JStr ''legacy-one'', JStr ''file-one'',
          JStr ''declared-one'', JStr ''broken'']" by simp
  with captured_ids_match_rule [of _ _ _ demo_catalog "[''catalog'']" _ "[]" "''declared-one''"]
    demo_catalog_loads n
  have "is_identifier ''declared-one''" by blast
  moreover have "\<not> is_identifier ''file_one''" by code_simp
  ultimately show ?thesis using n by blast
qed

text \<open>
  Claim C6 as stated fails: the base name \<^verbatim>\<open>My_Pattern\<close> becomes a valid identifier
  and the inline element \<^verbatim>\<open>Foo Bar\<close> a reference, and neither matches the rule.
\<close>

theorem verbatim_ids_break_rule:
  "load_valid_pattern_ids verbatim_ids_tree [''catalog''] = Inr ([JStr ''My_Pattern''], [])
   \<and> \<not> is_identifier ''My_Pattern''
   \<and> fst (collect_used_pattern_ids_from_manifests verbatim_ids_tree [''manifests''])
       = [([''manifests'', ''m.yaml''], ''Foo Bar'')]
   \<and> \<not> is_identifier ''Foo Bar''"
  by code_simp

section \<open>The shape of a match of the plan pattern\<close>





















section \<open>Properties of the plan collector\<close>







section \<open>Properties of the report\<close>

lemma print_errors_eq: "print_errors root errors out = out @ map (error_line root) errors"
  by (induction errors arbitrary: out) simp_all

lemma print_ids_eq: "print_ids indent pids out = out @ map (\<lambda>pid. indent @ ''- '' @ py_str pid) pids"
  by (induction pids arbitrary: out) simp_all

lemma report_code: "snd (snd (report root valid used errors)) = (if errors = [] then 0 else 1)"
  by (simp add: report_def Let_def split: sum.splits)

lemma validate_Nil_iff: "validate valid used = [] \<longleftrightarrow> (\<forall>r \<in> set used. JStr (snd r) \<in> set valid)"
  by (simp add: validate_def validate_loop_filter filter_empty_conv)

lemma check_references_code:
  "exit_code (check_references verbose root fs valid out err) =
     (if \<forall>r \<in> set (collected_references fs root). JStr (snd r) \<in> set valid then 0 else 1)"
proof -
  obtain out2 exc code
    where r: "report root valid (collected_references fs root)
                (validate valid (collected_references fs root)) = (out2, exc, code)"
    by (cases "report root valid (collected_references fs root)
                (validate valid (collected_references fs root))") auto
  with report_code [of root valid "collected_references fs root" "validate valid (collected_references fs root)"]
  have "code = (if validate valid (collected_references fs root) = [] then 0 else 1)" by simp
  with r show ?thesis
    by (simp add: check_references_def Let_def validate_Nil_iff)
qed

lemma py_sorted_strings: "py_sorted (map JStr names) = Inr (map JStr (sort names))"
proof -
  have "list_all is_str (map JStr names)" by (simp add: list_all_iff)
  moreover have "map str_of (map JStr names) = names" by (simp add: comp_def)
  ultimately show ?thesis by (simp add: py_sorted_def)
qed

lemma verbose_valid_strings: "list_all is_str valid \<Longrightarrow> snd (verbose_valid valid) = None"
  by (simp add: verbose_valid_def py_sorted_def Let_def)

text \<open>
  What holds of the exit code. Given the valid set and the collected references, the run
  from line 146 on ends with code 0 exactly when every collected identifier is a member
  of the valid set, and with code 1 exactly when one is not. For the whole program this
  is the exit code when the loader returns its set and, with \<^verbatim>\<open>--verbose\<close>, the set
  holds strings only.
\<close>

lemma exit_code_by_failures:
  "(exit_code (check_references verbose root fs valid out err) = 0
      \<longleftrightarrow> (\<forall>r \<in> set (collected_references fs root). JStr (snd r) \<in> set valid))
   \<and> (exit_code (check_references verbose root fs valid out err) = 1
      \<longleftrightarrow> (\<exists>r \<in> set (collected_references fs root). JStr (snd r) \<notin> set valid))
   \<and> (load_valid_pattern_ids fs (root @ [''catalog'']) = Inr (valid, w)
        \<and> (verbose \<longrightarrow> list_all is_str valid)
      \<longrightarrow> exit_code (main verbose root fs) =
            (if \<forall>r \<in> set (collected_references fs root). JStr (snd r) \<in> set valid then 0 else 1))"
proof (intro conjI impI)
  show "exit_code (check_references verbose root fs valid out err) = 0
      \<longleftrightarrow> (\<forall>r \<in> set (collected_references fs root). JStr (snd r) \<in> set valid)"
    by (simp add: check_references_code)
  show "exit_code (check_references verbose root fs valid out err) = 1
      \<longleftrightarrow> (\<exists>r \<in> set (collected_references fs root). JStr (snd r) \<notin> set valid)"
    by (simp add: check_references_code)
next
  assume a: "load_valid_pattern_ids fs (root @ [''catalog'']) = Inr (valid, w)
        \<and> (verbose \<longrightarrow> list_all is_str valid)"
  then have "verbose \<Longrightarrow> snd (verbose_valid valid) = None"
    by (simp add: verbose_valid_strings)
  then have "\<exists>out. run_with verbose root fs valid w = check_references verbose root fs valid out w"
    by (cases verbose; cases "verbose_valid valid") (auto simp: run_with_def)
  then obtain out where "run_with verbose root fs valid w = check_references verbose root fs valid out w"
    by blast
  with a show "exit_code (main verbose root fs) =
            (if \<forall>r \<in> set (collected_references fs root). JStr (snd r) \<in> set valid then 0 else 1)"
    by (simp add: main_def check_references_code)
qed

lemma scenario_a_loads:
  "load_valid_pattern_ids scenario_a ([''proj''] @ [''catalog'']) = Inr ([JStr ''feature-create-entity''], [])"
  by code_simp

lemma scenario_a_refs:
  "collected_references scenario_a [''proj''] = [([''proj'', ''manifests'', ''app.yaml''], ''feature-create-entity'')]"
  by code_simp

lemma scenario_b_loads:
  "load_valid_pattern_ids scenario_b ([''proj''] @ [''catalog'']) = Inr ([], [])"
  by code_simp

lemma scenario_b_refs:
  "collected_references scenario_b [''proj''] = [([''proj'', ''manifests'', ''app.yaml''], ''some-provider'')]"
  by code_simp

lemma exit_code_scenarios:
  "exit_code (main True [''proj''] scenario_a) = 0 \<and> exit_code (main False [''proj''] scenario_b) = 1"
proof -
  from exit_code_by_failures [of True "[''proj'']" scenario_a "[JStr ''feature-create-entity'']" _ _ "[]"]
    scenario_a_loads
  have "exit_code (main True [''proj''] scenario_a) =
          (if \<forall>r \<in> set (collected_references scenario_a [''proj'']).
                JStr (snd r) \<in> set [JStr ''feature-create-entity''] then 0 else 1)"
    by simp
  then have a: "exit_code (main True [''proj''] scenario_a) = 0"
    by (simp add: scenario_a_refs)
  from exit_code_by_failures [of False "[''proj'']" scenario_b "[]" _ _ "[]"] scenario_b_loads
  have "exit_code (main False [''proj''] scenario_b) =
          (if \<forall>r \<in> set (collected_references scenario_b [''proj'']). JStr (snd r) \<in> set [] then 0 else 1)"
    by simp
  then have "exit_code (main False [''proj''] scenario_b) = 1"
    by (simp add: scenario_b_refs)
  with a show ?thesis by simp
qed

text \<open>
  Claim C2. The claim has the program exit with code 0 exactly when every collected
  identifier is a member of the valid set, as the docstring of the script says
  (\<^verbatim>\<open>0: All pattern IDs are valid\<close>). The program does not: with the index
  \<^verbatim>\<open>{"patterns": [{"id": "a"}, {"id": 5}]}\<close> and the manifest line \<^verbatim>\<open>- id: a\<close> the one
  reference resolves and the run ends with code 0, but with \<^verbatim>\<open>--verbose\<close> the listing
  \<^verbatim>\<open>sorted(valid_ids)\<close> compares a str with an int, raises \<^verbatim>\<open>TypeError\<close>, and the run
  ends with code 1 before any reference is checked. With an index file that holds
  \<^verbatim>\<open>[]\<close> and no reference at all the loader raises and the run ends with code 1.
\<close>

theorem exit_code_not_by_failures_alone:
  "load_valid_pattern_ids mixed_ids_resolved [''proj'', ''catalog''] = Inr ([JStr ''a'', JInt 5], [])
   \<and> collected_references mixed_ids_resolved [''proj''] = [([''proj'', ''manifests'', ''m.yaml''], ''a'')]
   \<and> validate [JStr ''a'', JInt 5] (collected_references mixed_ids_resolved [''proj'']) = []
   \<and> main False [''proj''] mixed_ids_resolved =
       \<lparr> stdout = [''[OK] All 1 pattern ID references are valid.''], stderr = [], exit_code = 0 \<rparr>
   \<and> main True [''proj''] mixed_ids_resolved =
       \<lparr> stdout = [''[INFO] Found 2 valid pattern IDs in catalog''],
         stderr = [Traceback TypeError], exit_code = 1 \<rparr>
   \<and> collected_references array_index_catalog [''proj''] = []
   \<and> exit_code (main False [''proj''] array_index_catalog) = 1"
  by code_simp

lemma rglob_paths: "(f, r) \<in> set (rglob accepts dir t) \<Longrightarrow> \<exists>rel. rel \<noteq> [] \<and> f = dir @ rel"
  by (auto simp: rglob_def)

lemma manifest_ref_path:
  assumes "r \<in> set (fst (collect_used_pattern_ids_from_manifests fs dir))"
  shows "\<exists>rel. rel \<noteq> [] \<and> fst r = dir @ rel"
proof -
  from assms have "r \<in> set (concat (map (\<lambda>(f, rr). case rr of
                     Unreadable e \<Rightarrow> []
                   | Content c \<Rightarrow>
                       map (\<lambda>m. (f, group1 m)) (finditer False rx_list_id c)
                       @ map (\<lambda>m. (f, group1 m)) (finditer False rx_pattern_id c)
                       @ map (\<lambda>m. (f, group1 m)) (finditer False rx_provider c)
                       @ concat (map (\<lambda>m. map (Pair f) (inline_elements (group1 m)))
                                   (finditer False rx_from_catalog c)))
                (rglob (ends_with ''.yaml'') dir (manifests_tree fs))))"
    unfolding collect_used_pattern_ids_from_manifests_def manifests_loop_refs by simp
  from in_concat_map [OF this] obtain d
    where d: "d \<in> set (rglob (ends_with ''.yaml'') dir (manifests_tree fs))"
      and rd: "r \<in> set (case d of (f, rr) \<Rightarrow> case rr of
                     Unreadable e \<Rightarrow> []
                   | Content c \<Rightarrow>
                       map (\<lambda>m. (f, group1 m)) (finditer False rx_list_id c)
                       @ map (\<lambda>m. (f, group1 m)) (finditer False rx_pattern_id c)
                       @ map (\<lambda>m. (f, group1 m)) (finditer False rx_provider c)
                       @ concat (map (\<lambda>m. map (Pair f) (inline_elements (group1 m)))
                                   (finditer False rx_from_catalog c)))"
    by blast
  obtain f rr where frr: "d = (f, rr)" by (cases d)
  with rd have "fst r = f" by (cases rr) auto
  with d frr rglob_paths [of f rr] show ?thesis by simp
qed

lemma collected_reference_path:
  assumes "r \<in> set (collected_references fs root)"
  shows "\<exists>rel. rel \<noteq> [] \<and> fst r = root @ rel"
proof -
  from assms consider
      "r \<in> set (fst (collect_used_pattern_ids_from_manifests fs (root @ [''manifests''])))"
    | "r \<in> set (fst (collect_used_pattern_ids_from_plans fs (root @ [''specs''])))"
    by (auto simp: collected_references_def)
  then show ?thesis
  proof cases
    case 1
    from manifest_ref_path [OF this] obtain rel where "fst r = (root @ [''manifests'']) @ rel" by blast
    then have "fst r = root @ (''manifests'' # rel)" by simp
    then show ?thesis by blast
  next
    case 2
    from plan_refs_shape [OF this] obtain c
      where "(fst r, Content c) \<in> set (rglob (\<lambda>name. name = ''plan.md'') (root @ [''specs'']) (specs_tree fs))"
      by blast
    from rglob_paths [OF this] obtain rel where "fst r = (root @ [''specs'']) @ rel" by blast
    then have "fst r = root @ (''specs'' # rel)" by simp
    then show ?thesis by blast
  qed
qed

lemma error_line_relative:
  "rel \<noteq> [] \<Longrightarrow>
     error_line root (root @ rel, pid) = ''  - '' @ [CHR 0x27] @ pid @ [CHR 0x27] @ '' in '' @ join_with ''/'' rel"
  by (simp add: error_line_def Let_def is_relative_to_def relative_to_def rel_path_str_def)

text \<open>
  What holds of the report. With references and no failure it is the one line that states
  how many were checked; with no reference it is the other line; with failures and a
  valid set of strings it is the header, one line per failure in their order with the
  identifier and the path of its document relative to the project root (every collected
  reference lies below the root), an empty line, the header of the preview, the first 20
  valid identifiers in sorted order, and a line with the count of the others exactly
  when there are more than 20.
\<close>

lemma report_cases:
  "(used \<noteq> [] \<and> validate valid used = [] \<longrightarrow>
      report root valid used (validate valid used) =
        ([''[OK] All '' @ show_nat (length used) @ '' pattern ID references are valid.''], None, 0))
   \<and> report root valid [] (validate valid []) =
        ([''[OK] No pattern ID references found to validate.''], None, 0)
   \<and> (validate (map JStr names) used \<noteq> [] \<longrightarrow>
        report root (map JStr names) used (validate (map JStr names) used) =
          (''[ERROR] Unknown pattern IDs found:''
             # map (error_line root) (validate (map JStr names) used)
             @ [[], ''Available pattern IDs:'']
             @ map (\<lambda>n. ''  - '' @ n) (take 20 (sort names))
             @ (if 20 < length names then [''  ... and '' @ show_nat (length names - 20) @ '' more'']
                else []),
           None, 1))
   \<and> (rel \<noteq> [] \<longrightarrow>
        error_line root (root @ rel, pid) =
          ''  - '' @ [CHR 0x27] @ pid @ [CHR 0x27] @ '' in '' @ join_with ''/'' rel)
   \<and> (r \<in> set (collected_references fs root) \<longrightarrow> (\<exists>rel. rel \<noteq> [] \<and> fst r = root @ rel))"
proof (intro conjI impI)
  assume "used \<noteq> [] \<and> validate valid used = []"
  then show "report root valid used (validate valid used) =
        ([''[OK] All '' @ show_nat (length used) @ '' pattern ID references are valid.''], None, 0)"
    by (simp add: report_def)
next
  show "report root valid [] (validate valid []) =
        ([''[OK] No pattern ID references found to validate.''], None, 0)"
    by (simp add: report_def validate_def)
next
  assume "validate (map JStr names) used \<noteq> []"
  then show "report root (map JStr names) used (validate (map JStr names) used) =
          (''[ERROR] Unknown pattern IDs found:''
             # map (error_line root) (validate (map JStr names) used)
             @ [[], ''Available pattern IDs:'']
             @ map (\<lambda>n. ''  - '' @ n) (take 20 (sort names))
             @ (if 20 < length names then [''  ... and '' @ show_nat (length names - 20) @ '' more'']
                else []),
           None, 1)"
    by (simp add: report_def Let_def py_sorted_strings print_errors_eq print_ids_eq take_map comp_def)
next
  assume "rel \<noteq> []"
  then show "error_line root (root @ rel, pid) =
          ''  - '' @ [CHR 0x27] @ pid @ [CHR 0x27] @ '' in '' @ join_with ''/'' rel"
    by (rule error_line_relative)
next
  assume "r \<in> set (collected_references fs root)"
  then show "\<exists>rel. rel \<noteq> [] \<and> fst r = root @ rel"
    by (rule collected_reference_path)
qed

lemma big_catalog_run:
  "stdout (main False [''proj''] big_catalog) =
         [''[ERROR] Unknown pattern IDs found:'',
          ''  - '' @ [CHR 0x27] @ ''missing-one'' @ [CHR 0x27] @ '' in manifests/svc/app.yaml'',
          [],
          ''Available pattern IDs:'',
          ''  - p1'',
          ''  - p10'',
          ''  - p11'',
          ''  - p12'',
          ''  - p13'',
          ''  - p14'',
          ''  - p15'',
          ''  - p16'',
          ''  - p17'',
          ''  - p18'',
          ''  - p19'',
          ''  - p2'',
          ''  - p20'',
          ''  - p21'',
          ''  - p22'',
          ''  - p3'',
          ''  - p4'',
          ''  - p5'',
          ''  - p6'',
          ''  - p7'',
          ''  ... and 2 more'']"
  by code_simp

lemma scenario_runs:
  "stdout (main False [''proj''] scenario_a) = [''[OK] All 1 pattern ID references are valid.'']
   \<and> stdout (main False [''proj''] scenario_d) = [''[OK] No pattern ID references found to validate.'']
   \<and> exit_code (main False [''proj''] scenario_d) = 0"
  by code_simp

lemma report_scenarios:
  "stdout (main False [''proj''] big_catalog) =
         [''[ERROR] Unknown pattern IDs found:'',
          ''  - '' @ [CHR 0x27] @ ''missing-one'' @ [CHR 0x27] @ '' in manifests/svc/app.yaml'',
          [],
          ''Available pattern IDs:'',
          ''  - p1'',
          ''  - p10'',
          ''  - p11'',
          ''  - p12'',
          ''  - p13'',
          ''  - p14'',
          ''  - p15'',
          ''  - p16'',
          ''  - p17'',
          ''  - p18'',
          ''  - p19'',
          ''  - p2'',
          ''  - p20'',
          ''  - p21'',
          ''  - p22'',
          ''  - p3'',
          ''  - p4'',
          ''  - p5'',
          ''  - p6'',
          ''  - p7'',
          ''  ... and 2 more'']
   \<and> stdout (main False [''proj''] scenario_a) = [''[OK] All 1 pattern ID references are valid.'']
   \<and> stdout (main False [''proj''] scenario_d) = [''[OK] No pattern ID references found to validate.'']
   \<and> report [''proj''] [] [] (validate [] []) = ([''[OK] No pattern ID references found to validate.''], None, 0)"
  using report_cases [where root = "[''proj'']" and valid = "[]"] big_catalog_run scenario_runs
  by simp

text \<open>
  The failure report for any valid set: the preview is printed when \<^verbatim>\<open>sorted\<close>
  returns, and the report ends at the header of the preview when it raises.
\<close>

lemma report_failures_any_set:
  "errors \<noteq> [] \<Longrightarrow>
     report root valid used errors =
       (case py_sorted valid of
          Inl e \<Rightarrow>
            (''[ERROR] Unknown pattern IDs found:'' # map (error_line root) errors
               @ [[], ''Available pattern IDs:''], Some e, 1)
        | Inr sorted_ids \<Rightarrow>
            (''[ERROR] Unknown pattern IDs found:'' # map (error_line root) errors
               @ [[], ''Available pattern IDs:'']
               @ map (\<lambda>pid. ''  - '' @ py_str pid) (take 20 sorted_ids)
               @ (if 20 < length valid then [''  ... and '' @ show_nat (length valid - 20) @ '' more'']
                  else []),
             None, 1))"
  by (simp add: report_def Let_def print_errors_eq print_ids_eq split: sum.splits)

text \<open>
  Claim C7. The claim has every failure report end with the preview of the valid
  identifiers in sorted order. With the index \<^verbatim>\<open>{"patterns": [{"id": "a"}, {"id": 5}]}\<close>
  and the manifest line \<^verbatim>\<open>- id: zz\<close> the program prints the header, the line of the
  failure, the empty line and the header of the preview; then \<^verbatim>\<open>sorted(valid_ids)\<close>
  raises \<^verbatim>\<open>TypeError\<close>, and no preview and no count follow.
\<close>

theorem failure_report_without_preview:
  "load_valid_pattern_ids mixed_ids_unresolved [''proj'', ''catalog''] = Inr ([JStr ''a'', JInt 5], [])
   \<and> validate [JStr ''a'', JInt 5] (collected_references mixed_ids_unresolved [''proj''])
       = [([''proj'', ''manifests'', ''m.yaml''], ''zz'')]
   \<and> py_sorted [JStr ''a'', JInt 5] = Inl TypeError
   \<and> main False [''proj''] mixed_ids_unresolved =
       \<lparr> stdout = [''[ERROR] Unknown pattern IDs found:'',
                    ''  - '' @ [CHR 0x27] @ ''zz'' @ [CHR 0x27] @ '' in manifests/m.yaml'',
                    [], ''Available pattern IDs:''],
         stderr = [Traceback TypeError], exit_code = 1 \<rparr>"
  by code_simp

section \<open>The valid identifiers as a Python set\<close>

lemma py_set_iff:
  "py_set ids \<longleftrightarrow> distinct ids \<and> (\<forall>x \<in> set ids. \<forall>y \<in> set ids. py_eq x y \<longrightarrow> x = y)"
  by (simp add: py_set_def list_all_iff)

lemma py_set_Nil: "py_set []"
  by (simp add: py_set_iff)

lemma py_set_insert: "py_set ids \<Longrightarrow> py_set (set_insert x ids)"
proof (cases "py_in x ids")
  case True
  assume "py_set ids"
  with True show ?thesis by (simp add: set_insert_def)
next
  case False
  assume s: "py_set ids"
  from False have n: "\<forall>y \<in> set ids. \<not> py_eq x y" by (simp add: py_in_iff)
  then have "x \<notin> set ids" using py_eq_refl by blast
  moreover from n have "\<forall>y \<in> set ids. \<not> py_eq y x" using py_eq_sym by blast
  ultimately show ?thesis using s n False
    by (auto simp: py_set_iff set_insert_def)
qed

lemma add_ids_py_set: "add_ids ps ids = Inr ids' \<Longrightarrow> py_set ids \<Longrightarrow> py_set ids'"
proof (induction ps arbitrary: ids)
  case Nil
  then show ?case by simp
next
  case (Cons p ps)
  from Cons.prems(1) obtain kvs where p: "p = JObj kvs"
    by (cases p) (simp_all split: sum.splits)
  define pid where "pid = (case map_of kvs ''id'' of Some v \<Rightarrow> v | None \<Rightarrow> JNull)"
  show ?case
  proof (cases "truthy pid")
    case True
    with Cons.prems(1) p have "add_ids ps (set_insert pid ids) = Inr ids'"
      by (simp add: pid_def set_add_def split: sum.splits if_splits)
    from Cons.IH [OF this py_set_insert [OF Cons.prems(2)]] show ?thesis .
  next
    case False
    with Cons.prems(1) p have "add_ids ps ids = Inr ids'" by (simp add: pid_def)
    from Cons.IH [OF this Cons.prems(2)] show ?thesis .
  qed
qed

lemma add_categories_py_set: "add_categories cats ids = Inr ids' \<Longrightarrow> py_set ids \<Longrightarrow> py_set ids'"
proof (induction cats arbitrary: ids)
  case Nil
  then show ?case by simp
next
  case (Cons c cats)
  from Cons.prems(1) obtain items ids1
    where a1: "add_ids items ids = Inr ids1"
      and rest: "add_categories cats ids1 = Inr ids'"
    by (auto simp: category_patterns split: sum.splits)
  from Cons.IH [OF rest add_ids_py_set [OF a1 Cons.prems(2)]] show ?case .
qed

lemma index_body_py_set: "index_body data [] = Inr ids \<Longrightarrow> py_set ids"
proof -
  assume "index_body data [] = Inr ids"
  then obtain items ids1 cats
    where a1: "add_ids items [] = Inr ids1" and a2: "add_categories cats ids1 = Inr ids"
    by (auto simp: index_body_def split: sum.splits)
  from add_categories_py_set [OF a2 add_ids_py_set [OF a1 py_set_Nil]] show ?thesis .
qed

lemma load_index_py_set:
  assumes "load_index idx index_path [] = Inr (ids, w)"
  shows "py_set ids"
proof (cases idx)
  case (Json data)
  show ?thesis
  proof (cases "index_body data []")
    case (Inl x)
    obtain e ids' where "x = (e, ids')" by (cases x)
    with Inl index_body_raises have "e = AttributeError \<or> e = TypeError" by blast
    with Inl \<open>x = (e, ids')\<close> Json assms show ?thesis by (auto simp: load_index_def)
  next
    case (Inr ids')
    with Json assms have "ids' = ids" by (simp add: load_index_def)
    with Inr index_body_py_set show ?thesis by simp
  qed
qed (use assms in \<open>auto simp: load_index_def py_set_Nil split: if_splits\<close>)

lemma add_entry_files_py_set: "py_set ids \<Longrightarrow> py_set (add_entry_files files ids)"
proof (induction files arbitrary: ids)
  case Nil
  then show ?case by simp
next
  case (Cons d files)
  obtain f r where d: "d = (f, r)" by (cases d)
  define ids1 where "ids1 = set_insert (JStr (stem (path_name f))) ids"
  define ids2 where "ids2 = (case r of
                    Unreadable e \<Rightarrow> ids1
                  | Content content \<Rightarrow>
                      (case re_search False rx_entry_id content of
                         None \<Rightarrow> ids1
                       | Some m \<Rightarrow> set_insert (JStr (group1 m)) ids1))"
  have step: "add_entry_files (d # files) ids = add_entry_files files ids2"
    unfolding ids1_def ids2_def by (simp add: d Let_def)
  from Cons.prems have "py_set ids1" unfolding ids1_def by (rule py_set_insert)
  then have "py_set ids2"
    unfolding ids2_def by (auto split: read_result.splits option.splits intro: py_set_insert)
  from Cons.IH [OF this] step show ?case by simp
qed

lemma load_valid_py_set:
  assumes "load_valid_pattern_ids fs dir = Inr (ids, w)"
  shows "py_set ids"
proof -
  from assms obtain ids0
    where idx: "load_index (index_json fs) (dir @ [''index.json'']) [] = Inr (ids0, w)"
      and ids: "ids = add_entry_files
                        (rglob (ends_with ''.yaml'') (dir @ [''patterns'']) (patterns_tree fs)) ids0"
    by (auto simp: load_valid_pattern_ids_def split: sum.splits)
  from add_entry_files_py_set [OF load_index_py_set [OF idx]] ids show ?thesis by simp
qed

lemma py_sorted_perm:
  assumes m: "mset a = mset b" and s: "py_set a"
  shows "py_sorted a = py_sorted b"
proof -
  from m have set: "set a = set b" by (rule mset_eq_setD)
  from m have len: "length a = length b" by (rule mset_eq_length)
  have strs: "sort (map str_of a) = sort (map str_of b)"
  proof (rule properties_for_sort)
    show "mset (sort (map str_of b)) = mset (map str_of a)" using m by simp
    show "sorted (sort (map str_of b))" by simp
  qed
  have nums: "sort_key num_val a = sort_key num_val b" if num: "list_all (\<lambda>x. num_of x \<noteq> None) a"
  proof (rule sort_key_inj_key_eq)
    show "mset a = mset (sort_key num_val b)" using m by simp
    show "sorted (map num_val (sort_key num_val b))" by simp
    show "inj_on num_val (set a)"
    proof (rule inj_onI)
      fix x y assume x: "x \<in> set a" and y: "y \<in> set a" and e: "num_val x = num_val y"
      from num x have "num_of x \<noteq> None" by (simp add: list_all_iff)
      moreover from num y have "num_of y \<noteq> None" by (simp add: list_all_iff)
      ultimately obtain i j where "num_of x = Some i" "num_of y = Some j" by blast
      with e have "py_eq x y" by (simp add: py_eq_def num_val_def)
      with s x y show "x = y" by (auto simp: py_set_iff)
    qed
  qed
  have one: "a = b" if "length a \<le> 1"
  proof (cases a)
    case Nil
    with len show ?thesis by simp
  next
    case (Cons x xs)
    with that have "a = [x]" by simp
    with m show ?thesis by (metis mset_single_iff_right mset.simps(1) mset.simps(2) add_mset_eq_single)
  qed
  show ?thesis
    unfolding py_sorted_def
    using set len strs nums one by (auto simp: list_all_iff)
qed

section \<open>Reproducible output\<close>

lemma validate_same_set: "set a = set b \<Longrightarrow> validate a used = validate b used"
  by (simp add: validate_def validate_loop_filter)

lemma report_perm:
  assumes "mset a = mset b" and "py_set a"
  shows "report root a used errors = report root b used errors"
  unfolding report_def py_sorted_perm [OF assms] mset_eq_length [OF assms(1)] by (rule refl)

lemma verbose_valid_perm:
  assumes "mset a = mset b" and "py_set a"
  shows "verbose_valid a = verbose_valid b"
  unfolding verbose_valid_def py_sorted_perm [OF assms] mset_eq_length [OF assms(1)] by (rule refl)

lemma check_references_perm:
  assumes "mset a = mset b" and "py_set a"
  shows "check_references verbose root fs a out err = check_references verbose root fs b out err"
  unfolding check_references_def report_perm [OF assms]
    validate_same_set [OF mset_eq_setD [OF assms(1)]] by (rule refl)

lemma run_with_perm:
  assumes "mset a = mset b" and "py_set a"
  shows "run_with verbose root fs a w = run_with verbose root fs b w"
  unfolding run_with_def check_references_perm [OF assms] verbose_valid_perm [OF assms]
  by (rule refl)

text \<open>
  Claim C8. The outcome of a run (what is printed, the diagnostics and the exit code) is a
  function of the verbosity, the project root and the file tree, with its documents in
  the order of the traversal: \<open>main\<close> is that function. Inside the program one thing
  can differ between two runs on the same tree, the order in which the set of valid
  identifiers yields its members; the program reads the set only through membership,
  its size and \<^verbatim>\<open>sorted\<close>, and the outcome is the same for every order of the members.
\<close>

theorem run_independent_of_set_order:
  "(mset valid' = mset valid \<and> py_set valid \<longrightarrow>
      run_with verbose root fs valid' w = run_with verbose root fs valid w)
   \<and> (load_valid_pattern_ids fs (root @ [''catalog'']) = Inr (valid, w) \<longrightarrow>
        py_set valid \<and> main verbose root fs = run_with verbose root fs valid w)"
proof (intro conjI impI)
  assume "mset valid' = mset valid \<and> py_set valid"
  then have "mset valid = mset valid'" "py_set valid" by simp_all
  from run_with_perm [OF this] show "run_with verbose root fs valid' w = run_with verbose root fs valid w"
    by simp
next
  assume l: "load_valid_pattern_ids fs (root @ [''catalog'']) = Inr (valid, w)"
  then show "py_set valid" by (rule load_valid_py_set)
  from l show "main verbose root fs = run_with verbose root fs valid w" by (simp add: main_def)
qed

lemma scenario_b_verbose_run:
  "run_with True [''proj''] scenario_b [JStr ''b'', JStr ''a''] [] =
     \<lparr> stdout = [''[INFO] Found 2 valid pattern IDs in catalog'', ''       - a'', ''       - b'', [],
                  ''[INFO] Found 1 pattern ID references'', [],
                  ''[ERROR] Unknown pattern IDs found:'',
                  ''  - '' @ [CHR 0x27] @ ''some-provider'' @ [CHR 0x27] @ '' in manifests/app.yaml'',
                  [], ''Available pattern IDs:'', ''  - a'', ''  - b''],
       stderr = [], exit_code = 1 \<rparr>"
  by code_simp

theorem run_independent_of_set_order_witness:
  "run_with True [''proj''] scenario_b [JStr ''a'', JStr ''b''] [] =
     \<lparr> stdout = [''[INFO] Found 2 valid pattern IDs in catalog'', ''       - a'', ''       - b'', [],
                  ''[INFO] Found 1 pattern ID references'', [],
                  ''[ERROR] Unknown pattern IDs found:'',
                  ''  - '' @ [CHR 0x27] @ ''some-provider'' @ [CHR 0x27] @ '' in manifests/app.yaml'',
                  [], ''Available pattern IDs:'', ''  - a'', ''  - b''],
       stderr = [], exit_code = 1 \<rparr>"
proof -
  have "mset [JStr ''a'', JStr ''b''] = mset [JStr ''b'', JStr ''a'']" by (simp add: add_mset_commute)
  moreover have "py_set [JStr ''b'', JStr ''a'']" by (simp add: py_set_def py_eq_def)
  ultimately have "run_with True [''proj''] scenario_b [JStr ''a'', JStr ''b''] []
                   = run_with True [''proj''] scenario_b [JStr ''b'', JStr ''a''] []"
    using run_independent_of_set_order
      [where valid = "[JStr ''b'', JStr ''a'']" and valid' = "[JStr ''a'', JStr ''b'']"] by blast
  with scenario_b_verbose_run show ?thesis by simp
qed

end
